theory Spec2Isabelle
  imports Main "HOL-Library.Sublist" "HOL-Library.Extended_Nat"
begin

section \<open>Thrown values\<close>

text \<open>
  A JavaScript error as far as the gateway inspects it: \<open>error.name\<close>, \<open>error.code\<close>
  (the empty string when undefined), \<open>error.response?.status\<close> (\<open>None\<close> when there is
  no response) and \<open>error.message\<close>.
\<close>

record js_error =
  err_name :: string
  err_code :: string
  err_status :: "nat option"
  err_message :: string

section \<open>The cache manager\<close>

text \<open>
  \<open>cacheManager\<close> (the injected \<open>CACHE_MANAGER\<close>) is a key/value store with a per-key
  time to live.  The package is outside the repository; \<open>app.module.ts\<close> sets it up
  on a Redis store, with a memory store to fall back on, and hands both their default as
  \<open>ttl: REDIS_TTL * 1000\<close>, and \<open>demo.controller.ts\<close> caches "for 10 minutes" with
  \<open>600000\<close>: the manager counts a TTL in milliseconds.  An entry written at \<open>now\<close>
  with \<open>ttl\<close> is returned until \<open>now + ttl\<close>, and for ever when \<open>ttl\<close> is 0.
  Keys are kept in an association list, since \<open>store.keys()\<close> enumerates them.

  Every call to the store may throw.  \<open>faults\<close> is the schedule of the calls to come: each
  call consumes the head, and throws the error found there, if any; the empty schedule is a
  healthy store.
\<close>

record 'v cache =
  entries :: "(string \<times> 'v \<times> enat) list"
  faults :: "js_error option list"

text \<open>The two stores of \<open>app.module.ts\<close>.\<close>

datatype store_kind = RedisStore | MemoryStore

definition healthy :: "'v cache \<Rightarrow> bool" where
  "healthy c = (faults c = [])"

definition tick :: "'v cache \<Rightarrow> js_error option \<times> 'v cache" where
  "tick c = (case faults c of [] \<Rightarrow> (None, c) | f # fs \<Rightarrow> (f, c\<lparr>faults := fs\<rparr>))"

text \<open>The instant from which an entry written at \<open>now\<close> with \<open>ttl\<close> is gone.\<close>

definition expiry :: "nat \<Rightarrow> nat \<Rightarrow> enat" where
  "expiry now ttl = (if ttl = 0 then \<infinity> else enat (now + ttl))"

definition lookup :: "nat \<Rightarrow> string \<Rightarrow> 'v cache \<Rightarrow> 'v option" where
  "lookup now k c =
     (case map_of (entries c) k of
        None \<Rightarrow> None
      | Some (v, expires) \<Rightarrow> if enat now < expires then Some v else None)"

definition remove :: "string \<Rightarrow> (string \<times> 'v \<times> enat) list \<Rightarrow> (string \<times> 'v \<times> enat) list" where
  "remove k es = filter (\<lambda>e. fst e \<noteq> k) es"

text \<open>\<open>cacheManager.get(key)\<close>: \<open>None\<close> stands for \<open>undefined\<close>.\<close>

definition cache_get :: "nat \<Rightarrow> string \<Rightarrow> 'v cache \<Rightarrow> (js_error + 'v option) \<times> 'v cache" where
  "cache_get now k c =
     (case tick c of
        (Some e, c') \<Rightarrow> (Inl e, c')
      | (None, c') \<Rightarrow> (Inr (lookup now k c'), c'))"

text \<open>\<open>cacheManager.set(key, value, ttl)\<close>, for a value the store accepts.\<close>

definition cache_set :: "nat \<Rightarrow> string \<Rightarrow> 'v \<Rightarrow> nat \<Rightarrow> 'v cache \<Rightarrow> (js_error + unit) \<times> 'v cache" where
  "cache_set now k v ttl c =
     (case tick c of
        (Some e, c') \<Rightarrow> (Inl e, c')
      | (None, c') \<Rightarrow>
          (Inr (), c'\<lparr>entries := (k, v, expiry now ttl) # remove k (entries c')\<rparr>))"

text \<open>\<open>cacheManager.del(key)\<close>.\<close>

definition cache_del :: "string \<Rightarrow> 'v cache \<Rightarrow> (js_error + unit) \<times> 'v cache" where
  "cache_del k c =
     (case tick c of
        (Some e, c') \<Rightarrow> (Inl e, c')
      | (None, c') \<Rightarrow> (Inr (), c'\<lparr>entries := remove k (entries c')\<rparr>))"

text \<open>\<open>store.keys()\<close>: the keys that have not expired.\<close>

definition live_keys :: "nat \<Rightarrow> 'v cache \<Rightarrow> string list" where
  "live_keys now c = map fst (filter (\<lambda>e. enat now < snd (snd e)) (entries c))"

definition store_keys :: "nat \<Rightarrow> 'v cache \<Rightarrow> (js_error + string list) \<times> 'v cache" where
  "store_keys now c =
     (case tick c of
        (Some e, c') \<Rightarrow> (Inl e, c')
      | (None, c') \<Rightarrow> (Inr (live_keys now c'), c'))"

text \<open>
  An object that the memory store handed out is the stored object itself: an assignment
  to it changes the entry in place, whatever its expiry.
\<close>

definition poke :: "string \<Rightarrow> 'v \<Rightarrow> 'v cache \<Rightarrow> 'v cache" where
  "poke k v c =
     c\<lparr>entries := map (\<lambda>e. if fst e = k then (k, v, snd (snd e)) else e) (entries c)\<rparr>"

section \<open>RateLimitService\<close>

text \<open>
  \<open>checkLimit(identifier, limit, windowSeconds)\<close>, run when the clock reads \<open>now\<close>.
  The whole body is inside \<open>try\<close>; the \<open>catch\<close> answers \<open>true\<close>.  \<open>windowSeconds\<close>
  goes to \<open>set\<close> as it is.
\<close>

definition checkLimit :: "nat \<Rightarrow> string \<Rightarrow> int \<Rightarrow> nat \<Rightarrow> int cache \<Rightarrow> bool \<times> int cache" where
  "checkLimit now identifier limit windowSeconds c =
     (let key = ''ratelimit:'' @ identifier in
      case cache_get now key c of
        (Inl error, c1) \<Rightarrow> (True, c1)
      | (Inr None, c1) \<Rightarrow>
          (case cache_set now key 1 windowSeconds c1 of
             (Inl error, c2) \<Rightarrow> (True, c2)
           | (Inr _, c2) \<Rightarrow> (True, c2))
      | (Inr (Some current), c1) \<Rightarrow>
          if current \<ge> limit then (False, c1)
          else
            (case cache_set now key (current + 1) windowSeconds c1 of
               (Inl error, c2) \<Rightarrow> (True, c2)
             | (Inr _, c2) \<Rightarrow> (True, c2)))"

text \<open>A client issuing one \<open>checkLimit\<close> at each of the given instants, in order.\<close>

fun requests :: "nat list \<Rightarrow> string \<Rightarrow> int \<Rightarrow> nat \<Rightarrow> int cache \<Rightarrow> bool list \<times> int cache" where
  "requests [] identifier limit windowSeconds c = ([], c)"
| "requests (t # ts) identifier limit windowSeconds c =
     (case checkLimit t identifier limit windowSeconds c of
        (allowed, c1) \<Rightarrow>
          (case requests ts identifier limit windowSeconds c1 of
             (rest, c2) \<Rightarrow> (allowed # rest, c2)))"

section \<open>CacheService\<close>

text \<open>
  The values \<open>getOrSet\<close> caches: JSON values, which a serialising store hands back as
  they went in, and \<open>undefined\<close> and \<open>null\<close>, values of their own and distinct from the
  falsy values \<open>false\<close>, \<open>0\<close>, \<open>''\<close> and \<open>[]\<close>.
\<close>

datatype js_value =
    JUndefined
  | JNull
  | JBool bool
  | JNum int
  | JStr string
  | JArr "js_value list"
  | JObj "(string \<times> js_value) list"

text \<open>
  What \<open>set\<close> refuses before it reaches the store: \<open>undefined\<close> on both stores, and
  \<open>null\<close> as well on the Redis store.
\<close>

definition isCacheable :: "store_kind \<Rightarrow> js_value \<Rightarrow> bool" where
  "isCacheable store val =
     (case store of
        RedisStore \<Rightarrow> val \<noteq> JUndefined \<and> val \<noteq> JNull
      | MemoryStore \<Rightarrow> val \<noteq> JUndefined)"

definition notCacheable :: js_error where
  "notCacheable =
     \<lparr>err_name = ''Error'', err_code = [], err_status = None,
      err_message = ''no cacheable value''\<rparr>"

text \<open>
  What a call of \<open>getOrSet\<close> leaves behind: the value or error its promise settles
  with, the store, the world \<open>factory\<close> acts on, and how often \<open>factory\<close> was invoked.
\<close>

record 'w outcome =
  returned :: "js_error + js_value"
  cache_after :: "js_value cache"
  world_after :: 'w
  factory_calls :: nat

text \<open>
  \<open>getOrSet(key, factory, ttl)\<close> on the given store.  \<open>factory\<close> is an effectful
  computation on a world \<open>'w\<close> (the database behind it), which resolves (\<open>Inr\<close>) or
  rejects (\<open>Inl\<close>).  The \<open>try\<close> block holds the \<open>get\<close>, the first \<open>factory()\<close> and
  the \<open>set\<close>; whatever is thrown there, also by a \<open>set\<close> that refuses the value,
  lands in the \<open>catch\<close>, which returns \<open>factory()\<close>.
\<close>

definition getOrSet ::
  "store_kind \<Rightarrow> nat \<Rightarrow> string \<Rightarrow> ('w \<Rightarrow> (js_error + js_value) \<times> 'w) \<Rightarrow> nat \<Rightarrow> js_value cache
    \<Rightarrow> 'w \<Rightarrow> 'w outcome"
where
  "getOrSet store now key factory ttl c w =
     (case cache_get now key c of
        (Inl error, c1) \<Rightarrow>
          (case factory w of
             (r, w1) \<Rightarrow> \<lparr>returned = r, cache_after = c1, world_after = w1, factory_calls = 1\<rparr>)
      | (Inr got, c1) \<Rightarrow>
          (let cached = (case got of None \<Rightarrow> JUndefined | Some v \<Rightarrow> v) in
           if cached \<noteq> JUndefined \<and> cached \<noteq> JNull
           then \<lparr>returned = Inr cached, cache_after = c1, world_after = w, factory_calls = 0\<rparr>
           else
             (case factory w of
                (Inl error, w1) \<Rightarrow>
                  (case factory w1 of
                     (r, w2) \<Rightarrow>
                       \<lparr>returned = r, cache_after = c1, world_after = w2, factory_calls = 2\<rparr>)
              | (Inr val, w1) \<Rightarrow>
                  (case (if isCacheable store val then cache_set now key val ttl c1
                         else (Inl notCacheable, c1)) of
                     (Inl error, c2) \<Rightarrow>
                       (case factory w1 of
                          (r, w2) \<Rightarrow>
                            \<lparr>returned = r, cache_after = c2, world_after = w2, factory_calls = 2\<rparr>)
                   | (Inr _, c2) \<Rightarrow>
                       \<lparr>returned = Inr val, cache_after = c2, world_after = w1,
                        factory_calls = 1\<rparr>))))"

text \<open>\<open>key.includes(pattern)\<close>: \<open>pattern\<close> occurs in \<open>key\<close> as a contiguous run.\<close>

definition str_includes :: "string \<Rightarrow> string \<Rightarrow> bool" where
  "str_includes key pattern = sublist pattern key"

text \<open>The \<open>for\<close> loop of \<open>invalidatePattern\<close>; a \<open>del\<close> that throws ends it.\<close>

fun delete_each :: "string list \<Rightarrow> 'v cache \<Rightarrow> (js_error + unit) \<times> 'v cache" where
  "delete_each [] c = (Inr (), c)"
| "delete_each (key # keysToDelete) c =
     (case cache_del key c of
        (Inl error, c1) \<Rightarrow> (Inl error, c1)
      | (Inr _, c1) \<Rightarrow> delete_each keysToDelete c1)"

text \<open>
  \<open>invalidatePattern(pattern)\<close>: everything is inside \<open>try\<close>, and the \<open>catch\<close> only
  logs, so the call always resolves; what it returns is the store.
\<close>

definition invalidatePattern :: "nat \<Rightarrow> string \<Rightarrow> 'v cache \<Rightarrow> 'v cache" where
  "invalidatePattern now pattern c =
     (case store_keys now c of
        (Inl error, c1) \<Rightarrow> c1
      | (Inr keys, c1) \<Rightarrow>
          snd (delete_each (filter (\<lambda>key. str_includes key pattern) keys) c1))"

text \<open>
  \<open>invalidateConversation(conversationId)\<close>: the first \<open>del\<close> goes to the cache
  manager directly, outside any \<open>try\<close>.
\<close>

definition invalidateConversation :: "nat \<Rightarrow> string \<Rightarrow> 'v cache \<Rightarrow> (js_error + unit) \<times> 'v cache" where
  "invalidateConversation now conversationId c =
     (case cache_del (''conversation:'' @ conversationId) c of
        (Inl error, c1) \<Rightarrow> (Inl error, c1)
      | (Inr _, c1) \<Rightarrow>
          (Inr (),
           invalidatePattern now (''files:'' @ conversationId)
             (invalidatePattern now (''messages:'' @ conversationId) c1)))"

text \<open>The keys \<open>invalidateConversation\<close> is after.\<close>

definition conversation_key :: "string \<Rightarrow> string \<Rightarrow> bool" where
  "conversation_key conversationId key =
     (key = ''conversation:'' @ conversationId
      \<or> str_includes key (''messages:'' @ conversationId)
      \<or> str_includes key (''files:'' @ conversationId))"

section \<open>StreamService\<close>

text \<open>
  A date as a field of a stored object holds it: a \<open>Date\<close>, or, once the object has
  been through \<open>JSON.stringify\<close> and \<open>JSON.parse\<close>, the ISO string of the same
  instant.  Both carry the instant in milliseconds.
\<close>

datatype js_date = DateObj nat | DateString nat

text \<open>\<open>getTime()\<close> is a method of \<open>Date\<close>; on a string the call throws.\<close>

definition typeError :: js_error where
  "typeError = \<lparr>err_name = ''TypeError'', err_code = [], err_status = None, err_message = []\<rparr>"

definition getTime :: "js_date \<Rightarrow> js_error + nat" where
  "getTime d = (case d of DateObj t \<Rightarrow> Inr t | DateString t \<Rightarrow> Inl typeError)"

definition toJSON :: "js_date \<Rightarrow> js_date" where
  "toJSON d = (case d of DateObj t \<Rightarrow> DateString t | DateString t \<Rightarrow> DateString t)"

record StreamInfo =
  streamId :: string
  userId :: string
  conversationId :: string
  createdAt :: js_date
  lastActivityAt :: js_date
  expiresAt :: js_date

text \<open>
  What the registry keeps in the store: a \<open>StreamInfo\<close> under \<open>stream:<streamId>\<close> and
  the list of a user's stream ids under \<open>user_streams:<userId>\<close>.
\<close>

datatype stream_value = Info StreamInfo | Ids "string list"

text \<open>
  What \<open>set\<close> puts into the store: the Redis store the JSON of the value, the memory
  store a clone.
\<close>

definition stored :: "store_kind \<Rightarrow> stream_value \<Rightarrow> stream_value" where
  "stored store v =
     (case store of
        MemoryStore \<Rightarrow> v
      | RedisStore \<Rightarrow>
          (case v of
             Ids ids \<Rightarrow> Ids ids
           | Info s \<Rightarrow>
               Info (s\<lparr>createdAt := toJSON (createdAt s), lastActivityAt := toJSON (lastActivityAt s),
                        expiresAt := toJSON (expiresAt s)\<rparr>)))"

definition STREAM_TIMEOUT :: nat where
  "STREAM_TIMEOUT = 300"

text \<open>
  \<open>registerStream(userId, conversationId)\<close> when the clock reads \<open>now\<close>; \<open>uuid\<close> is what
  \<open>uuidv4()\<close> hands out.  Nothing is caught here, so an error of the store is the
  outcome of the call.  \<open>STREAM_TIMEOUT\<close> goes to \<open>set\<close> as it is.  \<open>streams.push\<close>
  acts on the array that \<open>get\<close> returned, which on the memory store is the stored one.
\<close>

definition registerStream ::
  "store_kind \<Rightarrow> string \<Rightarrow> nat \<Rightarrow> string \<Rightarrow> string \<Rightarrow> stream_value cache
    \<Rightarrow> (js_error + string) \<times> stream_value cache"
where
  "registerStream store uuid now uid cid c =
     (let streamInfo = \<lparr>streamId = uuid, userId = uid, conversationId = cid,
                         createdAt = DateObj now, lastActivityAt = DateObj now,
                         expiresAt = DateObj (now + STREAM_TIMEOUT * 1000)\<rparr>;
          key = ''stream:'' @ uuid
      in case cache_set now key (stored store (Info streamInfo)) STREAM_TIMEOUT c of
           (Inl error, c1) \<Rightarrow> (Inl error, c1)
         | (Inr _, c1) \<Rightarrow>
             (let userStreamsKey = ''user_streams:'' @ uid
              in case cache_get now userStreamsKey c1 of
                   (Inl error, c2) \<Rightarrow> (Inl error, c2)
                 | (Inr (Some (Info other)), c2) \<Rightarrow> (Inl typeError, c2)
                 | (Inr got, c2) \<Rightarrow>
                     (let streams = (case got of Some (Ids ids) \<Rightarrow> ids | _ \<Rightarrow> []) @ [uuid];
                          pushed = (case (store, got) of
                                      (MemoryStore, Some (Ids ids)) \<Rightarrow>
                                        poke userStreamsKey (Ids streams) c2
                                    | _ \<Rightarrow> c2)
                      in case cache_set now userStreamsKey (stored store (Ids streams))
                                STREAM_TIMEOUT pushed of
                           (Inl error, c3) \<Rightarrow> (Inl error, c3)
                         | (Inr _, c3) \<Rightarrow> (Inr uuid, c3))))"

text \<open>
  \<open>updateActivity(streamId)\<close>.  The clock is read twice: \<open>now\<close> becomes
  \<open>lastActivityAt\<close>, which on the memory store changes the stored object at once, and
  \<open>now'\<close> gives the TTL, \<open>Math.ceil((stream.expiresAt.getTime() - now') / 1000)\<close>.  The
  entry is written back only when that TTL is positive; \<open>expiresAt\<close> is not assigned.
  Nothing is caught here.
\<close>

definition updateActivity ::
  "store_kind \<Rightarrow> nat \<Rightarrow> nat \<Rightarrow> string \<Rightarrow> stream_value cache \<Rightarrow> (js_error + unit) \<times> stream_value cache"
where
  "updateActivity store now now' sid c =
     (let key = ''stream:'' @ sid
      in case cache_get now key c of
           (Inl error, c1) \<Rightarrow> (Inl error, c1)
         | (Inr None, c1) \<Rightarrow> (Inr (), c1)
         | (Inr (Some (Ids ids)), c1) \<Rightarrow> (Inl typeError, c1)
         | (Inr (Some (Info stream)), c1) \<Rightarrow>
             (let stream' = stream\<lparr>lastActivityAt := DateObj now\<rparr>;
                  assigned = (case store of
                                MemoryStore \<Rightarrow> poke key (Info stream') c1
                              | RedisStore \<Rightarrow> c1)
              in case getTime (expiresAt stream') of
                   Inl error \<Rightarrow> (Inl error, assigned)
                 | Inr expires \<Rightarrow>
                     (let ttl = (int expires - int now' + 999) div 1000
                      in if ttl > 0
                         then cache_set now' key (stored store (Info stream')) (nat ttl) assigned
                         else (Inr (), assigned))))"

section \<open>AiGatewayService: the retry wrapper\<close>

definition AI_ENGINE_TIMEOUT :: nat where
  "AI_ENGINE_TIMEOUT = 120000"

definition MAX_RETRIES :: nat where
  "MAX_RETRIES = 3"

text \<open>
  How \<open>axios.post\<close> settles.  The AI engine is a parameter: for the attempt number it
  tells after how many milliseconds the request settles if nobody aborts it, and how: with
  a response, or with an error (an HTTP error status, a network failure, axios' own
  \<open>timeout\<close> with code \<open>ECONNABORTED\<close>).
\<close>

datatype 'r settled = Resolved 'r | Rejected js_error

type_synonym 'r upstream = "nat \<Rightarrow> nat \<times> 'r settled"

text \<open>
  What axios rejects with when the \<open>signal\<close> it was given aborts; the \<open>catch\<close> block
  tests for exactly this name and code.
\<close>

definition canceledError :: js_error where
  "canceledError =
     \<lparr>err_name = ''CanceledError'', err_code = ''ERR_CANCELED'', err_status = None,
      err_message = ''canceled''\<rparr>"

text \<open>An \<open>AbortSignal\<close>: the instant at which it fires, if it ever does.\<close>

type_synonym abort_signal = "nat option"

text \<open>
  The \<open>try\<close> block, entered when the clock reads \<open>now\<close>.  A fresh controller is
  aborted by the timer after \<open>AI_ENGINE_TIMEOUT\<close>, and by the listener on
  \<open>externalSignal\<close> if one was passed and it fires from now on (an \<open>abort\<close> event that
  was dispatched before the listener was added is not seen).  The request settles on its
  own if it does so no later than the controller aborts; otherwise axios rejects with
  \<open>canceledError\<close> at the instant of the abort.  The result is that instant and the
  settlement.
\<close>

definition post_attempt ::
  "'r upstream \<Rightarrow> nat \<Rightarrow> nat \<Rightarrow> abort_signal option \<Rightarrow> nat \<times> 'r settled"
where
  "post_attempt upstream now attempt externalSignal =
     (let timer = now + AI_ENGINE_TIMEOUT;
          listener = (case externalSignal of
                        Some (Some fired) \<Rightarrow> if now \<le> fired then Some fired else None
                      | _ \<Rightarrow> None);
          aborted = (case listener of Some fired \<Rightarrow> min fired timer | None \<Rightarrow> timer)
      in case upstream attempt of
           (duration, outcome) \<Rightarrow>
             if now + duration \<le> aborted then (now + duration, outcome)
             else (aborted, Rejected canceledError))"

text \<open>The two tests of the \<open>catch\<close> block.\<close>

definition is_canceled :: "js_error \<Rightarrow> bool" where
  "is_canceled error = (err_name error = ''CanceledError'' \<or> err_code error = ''ERR_CANCELED'')"

definition is_client_error :: "js_error \<Rightarrow> bool" where
  "is_client_error error =
     (case err_status error of None \<Rightarrow> False | Some status \<Rightarrow> 400 \<le> status \<and> status < 500)"

text \<open>
  \<open>Math.min(1000 * Math.pow(2, attempt - 1), 10000)\<close>; \<open>attempt\<close> counts from 1, and
  at 0 the power is one half.
\<close>

definition retry_delay :: "nat \<Rightarrow> nat" where
  "retry_delay attempt = (if attempt = 0 then 500 else min (1000 * 2 ^ (attempt - 1)) 10000)"

text \<open>
  What a call does, as seen from outside: the attempts it starts (number and instant) and
  the delays it waits, in order; what its promise settles with; and when.
\<close>

datatype event = Attempt nat nat | Delay nat

record 'r call =
  result :: "js_error + 'r"
  events :: "event list"
  finished :: nat

text \<open>
  \<open>callAIEngineWithRetry(payload, attempt, externalSignal)\<close>.  The recursive call
  passes \<open>payload\<close> and \<open>attempt + 1\<close> only, so its \<open>externalSignal\<close> is
  \<open>undefined\<close>.
\<close>

function callAIEngineWithRetry ::
  "'r upstream \<Rightarrow> nat \<Rightarrow> nat \<Rightarrow> abort_signal option \<Rightarrow> 'r call"
where
  "callAIEngineWithRetry upstream now attempt externalSignal =
     (case post_attempt upstream now attempt externalSignal of
        (t, Resolved response) \<Rightarrow>
          \<lparr>result = Inr response, events = [Attempt attempt now], finished = t\<rparr>
      | (t, Rejected error) \<Rightarrow>
          if is_canceled error
          then \<lparr>result = Inl error, events = [Attempt attempt now], finished = t\<rparr>
          else if is_client_error error
          then \<lparr>result = Inl error, events = [Attempt attempt now], finished = t\<rparr>
          else if attempt < MAX_RETRIES
          then
            (let delay = retry_delay attempt;
                 retried = callAIEngineWithRetry upstream (t + delay) (attempt + 1) None
             in retried\<lparr>events := Attempt attempt now # Delay delay # events retried\<rparr>)
          else \<lparr>result = Inl error, events = [Attempt attempt now], finished = t\<rparr>)"
  by pat_completeness auto
termination
  by (relation "measure (\<lambda>(upstream, now, attempt, externalSignal). MAX_RETRIES - attempt)") auto

text \<open>The attempts among the events: their numbers, and the instants they start at.\<close>

fun attempts :: "event list \<Rightarrow> (nat \<times> nat) list" where
  "attempts [] = []"
| "attempts (Attempt n t # es) = (n, t) # attempts es"
| "attempts (Delay d # es) = attempts es"

section \<open>AiGatewayService: the title of a new conversation\<close>

text \<open>
  A JavaScript string is a sequence of UTF-16 code units, and \<open>length\<close>, \<open>substring\<close>
  and the regular expressions used here (no \<open>u\<close> flag) count and match code units.  A
  code unit is a \<open>nat\<close>; \<open>js\<close> gives the code units of an ASCII literal.
\<close>

definition js :: "string \<Rightarrow> nat list" where
  "js s = map of_char s"

text \<open>
  What \<open>\s\<close> and \<open>trim()\<close> take for white space: the white space and line terminator
  code points of ECMAScript.
\<close>

definition isSpace :: "nat \<Rightarrow> bool" where
  "isSpace c =
     (c \<in> {9, 10, 11, 12, 13, 32, 160, 5760, 8232, 8233, 8239, 8287, 12288, 65279}
      \<or> (8192 \<le> c \<and> c \<le> 8202))"

text \<open>The class \<open>[.!?]\<close>.\<close>

definition isTerminal :: "nat \<Rightarrow> bool" where
  "isTerminal c = (c = 46 \<or> c = 33 \<or> c = 63)"

definition trim :: "nat list \<Rightarrow> nat list" where
  "trim s = rev (dropWhile isSpace (rev (dropWhile isSpace s)))"

text \<open>\<open>replace(/\s+/g, ' ')\<close>: every maximal run of white space becomes one space.\<close>

function collapse :: "nat list \<Rightarrow> nat list" where
  "collapse [] = []"
| "collapse (c # cs) =
     (if isSpace c then 32 # collapse (dropWhile isSpace cs) else c # collapse cs)"
  by pat_completeness auto
termination
  by (relation "measure length") (auto simp add: length_dropWhile_le less_Suc_eq_le)

text \<open>
  \<open>match(/^[^.!?]+[.!?]/)\<close>: the longest run of other characters at the start, which
  must not be empty, and the terminal mark that must follow it; \<open>None\<close> is \<open>null\<close>.
\<close>

definition sentenceEndMatch :: "nat list \<Rightarrow> nat list option" where
  "sentenceEndMatch s =
     (let body = takeWhile (\<lambda>c. \<not> isTerminal c) s;
          rest = dropWhile (\<lambda>c. \<not> isTerminal c) s
      in case rest of
           [] \<Rightarrow> None
         | mark # _ \<Rightarrow> if body = [] then None else Some (body @ [mark]))"

text \<open>\<open>lastIndexOf\<close>: the index of the last occurrence, or \<open>-1\<close>.\<close>

definition lastIndexOf :: "nat list \<Rightarrow> nat \<Rightarrow> int" where
  "lastIndexOf s c =
     (if c \<in> set s then int (length s) - 1 - int (length (takeWhile (\<lambda>x. x \<noteq> c) (rev s)))
      else - 1)"

definition cleanMessage :: "nat list \<Rightarrow> nat list" where
  "cleanMessage message = collapse (trim message)"

definition generateTitleFromMessage :: "nat list \<Rightarrow> nat list" where
  "generateTitleFromMessage message =
     (let clean = cleanMessage message;
          truncated = take 50 clean;
          lastSpaceIndex = lastIndexOf truncated 32;
          shortened =
            (if length clean \<le> 50 then clean
             else if lastSpaceIndex > 30 then take (nat lastSpaceIndex) truncated @ js ''...''
             else truncated @ js ''...'')
      in case sentenceEndMatch clean of
           None \<Rightarrow> shortened
         | Some matched \<Rightarrow>
             (let sentence = trim matched
              in if length sentence \<le> 60 then sentence else shortened))"

section \<open>AiGatewayService: the end of a stream\<close>

datatype MessageRole = USER | ASSISTANT | SYSTEM

text \<open>
  What \<open>streamChat\<close> pushes to its observer: a parsed chunk passed on, the \<open>done\<close>
  event with the conversation id, or an \<open>error\<close> event with a message.
\<close>

datatype message_event = Forwarded string | DoneEvent string | ErrorEvent string

datatype subscriber_state = Active | Completed | Failed js_error

text \<open>
  The relay as the handlers of \<open>streamChat\<close> see it: the events sent so far, the state of
  the observer, the cache manager, and the rejections of promises that nothing awaits and
  nothing catches.
\<close>

record 'v relay =
  emitted :: "message_event list"
  subscriber :: subscriber_state
  unhandled :: "js_error list"
  tracking :: "'v cache"

text \<open>\<open>observer.next\<close>, \<open>observer.complete\<close>, \<open>observer.error\<close>: a closed observer ignores them.\<close>

definition observer_next :: "message_event \<Rightarrow> 'v relay \<Rightarrow> 'v relay" where
  "observer_next e r = (if subscriber r = Active then r\<lparr>emitted := emitted r @ [e]\<rparr> else r)"

definition observer_complete :: "'v relay \<Rightarrow> 'v relay" where
  "observer_complete r = (if subscriber r = Active then r\<lparr>subscriber := Completed\<rparr> else r)"

definition observer_error :: "js_error \<Rightarrow> 'v relay \<Rightarrow> 'v relay" where
  "observer_error error r = (if subscriber r = Active then r\<lparr>subscriber := Failed error\<rparr> else r)"

text \<open>
  The handler of \<open>'end'\<close>, an \<open>async\<close> function called by the response stream.
  \<open>saveMessage\<close> is the chat service, resolving or rejecting.  The handler has no
  \<open>try\<close>, and the \<open>try\<close> of the enclosing function was left when the handler was
  registered: an \<open>await\<close> that rejects ends the handler and rejects its promise, which the
  stream drops.
\<close>

definition on_end ::
  "(string \<Rightarrow> MessageRole \<Rightarrow> string \<Rightarrow> js_error + unit) \<Rightarrow> string \<Rightarrow> string \<Rightarrow> string
    \<Rightarrow> string \<Rightarrow> 'v relay \<Rightarrow> 'v relay"
where
  "on_end saveMessage conversation_id uid stream_id fullResponse r =
     (case saveMessage conversation_id ASSISTANT fullResponse of
        Inl error \<Rightarrow> r\<lparr>unhandled := unhandled r @ [error]\<rparr>
      | Inr _ \<Rightarrow>
          (case delete_each
                  [''conversation:'' @ conversation_id, ''messages:'' @ conversation_id,
                   ''conversations:'' @ uid, ''stream:'' @ stream_id] (tracking r) of
             (Inl error, c) \<Rightarrow> r\<lparr>tracking := c, unhandled := unhandled r @ [error]\<rparr>
           | (Inr _, c) \<Rightarrow>
               observer_complete (observer_next (DoneEvent conversation_id) (r\<lparr>tracking := c\<rparr>))))"

text \<open>The message the \<open>catch\<close> block of \<open>streamChat\<close> picks; a thrown value is an \<open>Error\<close>.\<close>

definition errorMessage :: "js_error \<Rightarrow> string" where
  "errorMessage error =
     (if err_name error = ''AbortError'' \<or> err_code error = ''ECONNABORTED''
      then ''Request timeout. The AI is taking too long to respond. Please try again.''
      else if err_code error = ''ECONNREFUSED''
      then ''AI service is temporarily unavailable. Please try again in a moment.''
      else if err_status error = Some 429
      then ''Rate limit exceeded. Please wait a moment before trying again.''
      else err_message error)"

text \<open>
  The \<open>catch\<close> block of \<open>streamChat\<close>, which takes what the body throws up to and
  including the call of the engine: the tracking key is deleted, a cancellation completes
  the observer silently, and anything else is sent as one \<open>error\<close> event before the
  observer fails.
\<close>

definition on_catch :: "js_error \<Rightarrow> string \<Rightarrow> 'v relay \<Rightarrow> 'v relay" where
  "on_catch error stream_id r =
     (case cache_del (''stream:'' @ stream_id) (tracking r) of
        (Inl thrown, c) \<Rightarrow> r\<lparr>tracking := c, unhandled := unhandled r @ [thrown]\<rparr>
      | (Inr _, c) \<Rightarrow>
          if is_canceled error then observer_complete (r\<lparr>tracking := c\<rparr>)
          else observer_error error
                 (observer_next (ErrorEvent (errorMessage error)) (r\<lparr>tracking := c\<rparr>)))"

section \<open>Properties of the rate limiter\<close>

declare numeral_eq_enat [simp]

lemma tick_healthy: "healthy c \<Longrightarrow> tick c = (None, c)"
  by (simp add: healthy_def tick_def)


lemma live_at_writing: "enat t < expiry t w \<longleftrightarrow> True"
  by (simp add: expiry_def)








text \<open>
  The window as the store keeps it: the key written at 0 with \<open>windowSeconds = 60\<close> is gone
  60 ms later, so with a limit of 1 a second request after 100 ms is admitted again.
\<close>

lemma checkLimit_window_in_milliseconds:
  "fst (requests [0, 100] ''u'' 1 60 \<lparr>entries = [], faults = []\<rparr>) = [True, True]"
  by (simp add: checkLimit_def Let_def cache_get_def cache_set_def tick_def lookup_def remove_def
      expiry_def)

section \<open>Properties of cache invalidation\<close>

lemma cache_del_healthy:
  "healthy c \<Longrightarrow> cache_del k c = (Inr (), c\<lparr>entries := remove k (entries c)\<rparr>)"
  by (simp add: cache_del_def tick_healthy)

lemma delete_each_healthy:
  "healthy c \<Longrightarrow>
   delete_each ks c = (Inr (), c\<lparr>entries := filter (\<lambda>e. fst e \<notin> set ks) (entries c)\<rparr>)"
proof (induction ks arbitrary: c)
  case Nil
  then show ?case by simp
next
  case (Cons k ks)
  let ?c1 = "c\<lparr>entries := remove k (entries c)\<rparr>"
  have h: "healthy ?c1" using Cons.prems by (simp add: healthy_def)
  have f: "filter (\<lambda>e. fst e \<notin> set ks) (remove k (entries c))
         = filter (\<lambda>e. fst e \<notin> set (k # ks)) (entries c)"
    by (auto simp add: remove_def intro: filter_cong)
  show ?case
    using Cons.IH[OF h] f by (simp add: cache_del_healthy[OF Cons.prems])
qed

lemma invalidatePattern_healthy:
  assumes "healthy c"
  shows "invalidatePattern now p c =
    c\<lparr>entries := filter (\<lambda>e. \<not> (fst e \<in> set (live_keys now c) \<and> str_includes (fst e) p)) (entries c)\<rparr>"
proof -
  have "filter (\<lambda>e. fst e \<notin> set (filter (\<lambda>key. str_includes key p) (live_keys now c))) (entries c)
      = filter (\<lambda>e. \<not> (fst e \<in> set (live_keys now c) \<and> str_includes (fst e) p)) (entries c)"
    by (auto intro: filter_cong)
  then show ?thesis
    using assms
    by (simp add: invalidatePattern_def store_keys_def tick_healthy delete_each_healthy)
qed

lemma invalidatePattern_keeps_healthy:
  "healthy c \<Longrightarrow> healthy (invalidatePattern now p c)"
  by (simp add: invalidatePattern_healthy) (simp add: healthy_def)

lemma map_of_filter_key:
  "map_of (filter (\<lambda>e. Q (fst e)) es) k = (if Q k then map_of es k else None)"
  by (induction es) auto

lemma lookup_not_live:
  assumes "k \<notin> set (live_keys now c)"
  shows "lookup now k c = None"
proof (cases "map_of (entries c) k")
  case None
  then show ?thesis by (simp add: lookup_def)
next
  case (Some ve)
  obtain v ex where ve: "ve = (v, ex)" by (cases ve)
  have "(k, v, ex) \<in> set (entries c)" using Some ve by (simp add: map_of_SomeD)
  then have "\<not> enat now < ex" using assms by (force simp add: live_keys_def)
  then show ?thesis using Some ve by (simp add: lookup_def)
qed

lemma lookup_filter_key:
  "lookup now k (c\<lparr>entries := filter (\<lambda>e. Q (fst e)) (entries c)\<rparr>) = (if Q k then lookup now k c else None)"
  by (simp add: lookup_def map_of_filter_key)

lemma lookup_invalidatePattern:
  assumes "healthy c"
  shows "lookup now k (invalidatePattern now p c) = (if str_includes k p then None else lookup now k c)"
proof -
  define Q where "Q = (\<lambda>k. \<not> (k \<in> set (live_keys now c) \<and> str_includes k p))"
  have e: "invalidatePattern now p c = c\<lparr>entries := filter (\<lambda>e. Q (fst e)) (entries c)\<rparr>"
    unfolding Q_def by (rule invalidatePattern_healthy[OF assms])
  have l: "lookup now k (invalidatePattern now p c) = (if Q k then lookup now k c else None)"
    unfolding e by (rule lookup_filter_key)
  show ?thesis
  proof (cases "k \<in> set (live_keys now c)")
    case True
    then show ?thesis using l by (simp add: Q_def)
  next
    case False
    then have "lookup now k c = None" by (rule lookup_not_live)
    then show ?thesis using l by (simp add: Q_def)
  qed
qed

lemma live_keys_filter_key:
  "live_keys now (c\<lparr>entries := filter (\<lambda>e. Q (fst e)) (entries c)\<rparr>) = filter Q (live_keys now c)"
  by (simp add: live_keys_def filter_map comp_def conj_commute)

lemma live_keys_invalidatePattern:
  assumes "healthy c"
  shows "live_keys now (invalidatePattern now p c) = filter (\<lambda>k. \<not> str_includes k p) (live_keys now c)"
proof -
  define Q where "Q = (\<lambda>k. \<not> (k \<in> set (live_keys now c) \<and> str_includes k p))"
  have e: "invalidatePattern now p c = c\<lparr>entries := filter (\<lambda>e. Q (fst e)) (entries c)\<rparr>"
    unfolding Q_def by (rule invalidatePattern_healthy[OF assms])
  have "live_keys now (invalidatePattern now p c) = filter Q (live_keys now c)"
    unfolding e by (rule live_keys_filter_key)
  also have "\<dots> = filter (\<lambda>k. \<not> str_includes k p) (live_keys now c)"
    by (rule filter_cong) (auto simp add: Q_def)
  finally show ?thesis .
qed

lemma invalidatePattern_nothing:
  assumes "healthy c" "\<forall>k\<in>set (live_keys now c). \<not> str_includes k p"
  shows "invalidatePattern now p c = c"
proof -
  have "filter (\<lambda>e. \<not> (fst e \<in> set (live_keys now c) \<and> str_includes (fst e) p)) (entries c) = entries c"
    using assms(2) by (auto simp add: filter_id_conv)
  then show ?thesis by (simp add: invalidatePattern_healthy[OF assms(1)])
qed

lemma remove_absent: "k \<notin> fst ` set es \<Longrightarrow> remove k es = es"
  by (force simp add: remove_def filter_id_conv)

lemma invalidateConversation_nothing:
  assumes "healthy c" "''conversation:'' @ i \<notin> fst ` set (entries c)"
    and "\<forall>k\<in>set (live_keys now c). \<not> str_includes k (''messages:'' @ i) \<and> \<not> str_includes k (''files:'' @ i)"
  shows "invalidateConversation now i c = (Inr (), c)"
proof -
  have r: "remove (''conversation:'' @ i) (entries c) = entries c"
    using assms(2) by (rule remove_absent)
  have d: "cache_del (''conversation:'' @ i) c = (Inr (), c)"
    unfolding cache_del_healthy[OF assms(1)] r by simp
  have m: "invalidatePattern now (''messages:'' @ i) c = c"
    using assms by (intro invalidatePattern_nothing) auto
  have f: "invalidatePattern now (''files:'' @ i) c = c"
    using assms by (intro invalidatePattern_nothing) auto
  show ?thesis by (simp only: invalidateConversation_def d m f prod.case sum.case)
qed


lemma live_keys_mono: "now \<le> now2 \<Longrightarrow> set (live_keys now2 c) \<subseteq> set (live_keys now c)"
proof -
  assume le: "now \<le> now2"
  have "enat now < e" if "enat now2 < e" for e
  proof -
    have "enat now \<le> enat now2" using le by simp
    then show ?thesis using that by (rule order.strict_trans1)
  qed
  then show ?thesis by (auto simp add: live_keys_def)
qed

lemma live_keys_subset: "set (live_keys now c) \<subseteq> fst ` set (entries c)"
  by (auto simp add: live_keys_def)

lemma entries_invalidatePattern:
  "healthy c \<Longrightarrow> set (entries (invalidatePattern now p c)) \<subseteq> set (entries c)"
  by (simp add: invalidatePattern_healthy)

text \<open>
  Claim C8.  On a healthy store \<open>invalidateConversation(id)\<close> resolves without an error;
  afterwards the key \<open>conversation:<id>\<close>, every key containing \<open>messages:<id>\<close> and
  every key containing \<open>files:<id>\<close> is gone, and every other key reads as before.  A
  second call, then or later, changes nothing, and a call on a store that holds none of
  these keys leaves it as it is.
\<close>

theorem invalidateConversation_removes:
  assumes "healthy c"
  shows "fst (invalidateConversation now i c) = Inr ()
    \<and> (\<forall>k. lookup now k (snd (invalidateConversation now i c))
            = (if conversation_key i k then None else lookup now k c))
    \<and> live_keys now (snd (invalidateConversation now i c))
        = filter (\<lambda>k. \<not> conversation_key i k) (live_keys now c)
    \<and> (\<forall>now2 \<ge> now. invalidateConversation now2 i (snd (invalidateConversation now i c))
            = (Inr (), snd (invalidateConversation now i c)))
    \<and> ((\<forall>k \<in> fst ` set (entries c). \<not> conversation_key i k) \<longrightarrow>
          invalidateConversation now i c = (Inr (), c))"
proof -
  define ck where "ck = ''conversation:'' @ i"
  define mk where "mk = ''messages:'' @ i"
  define fk where "fk = ''files:'' @ i"
  define c1 where "c1 = c\<lparr>entries := filter (\<lambda>e. (\<lambda>k. k \<noteq> ck) (fst e)) (entries c)\<rparr>"
  define c2 where "c2 = invalidatePattern now mk c1"
  define c3 where "c3 = invalidatePattern now fk c2"
  have ckey: "conversation_key i k = (k = ck \<or> str_includes k mk \<or> str_includes k fk)" for k
    by (simp only: conversation_key_def ck_def mk_def fk_def)
  have del: "cache_del ck c = (Inr (), c1)"
    by (simp add: cache_del_healthy[OF assms] c1_def remove_def)
  have run: "invalidateConversation now i c = (Inr (), c3)"
    by (simp only: invalidateConversation_def ck_def[symmetric] mk_def[symmetric] fk_def[symmetric]
        del c2_def c3_def prod.case sum.case)
  have h1: "healthy c1" using assms by (simp add: c1_def healthy_def)
  have h2: "healthy c2" unfolding c2_def using h1 by (rule invalidatePattern_keeps_healthy)
  have h3: "healthy c3" unfolding c3_def using h2 by (rule invalidatePattern_keeps_healthy)
  have l1: "lookup now k c1 = (if k \<noteq> ck then lookup now k c else None)" for k
    unfolding c1_def by (rule lookup_filter_key)
  have l2: "lookup now k c2 = (if str_includes k mk then None else lookup now k c1)" for k
    unfolding c2_def using h1 by (rule lookup_invalidatePattern)
  have l3: "lookup now k c3 = (if str_includes k fk then None else lookup now k c2)" for k
    unfolding c3_def using h2 by (rule lookup_invalidatePattern)
  have k1: "live_keys now c1 = filter (\<lambda>k. k \<noteq> ck) (live_keys now c)"
    unfolding c1_def by (rule live_keys_filter_key)
  have k2: "live_keys now c2 = filter (\<lambda>k. \<not> str_includes k mk) (live_keys now c1)"
    unfolding c2_def using h1 by (rule live_keys_invalidatePattern)
  have k3: "live_keys now c3 = filter (\<lambda>k. \<not> str_includes k fk) (live_keys now c2)"
    unfolding c3_def using h2 by (rule live_keys_invalidatePattern)
  have A: "fst (invalidateConversation now i c) = Inr ()" by (simp add: run)
  have B: "lookup now k (snd (invalidateConversation now i c))
            = (if conversation_key i k then None else lookup now k c)" for k
    by (simp add: run l1 l2 l3 ckey)
  have C: "live_keys now (snd (invalidateConversation now i c))
        = filter (\<lambda>k. \<not> conversation_key i k) (live_keys now c)"
    unfolding run snd_conv k3 k2 k1 filter_filter
    by (rule filter_cong) (auto simp add: ckey)
  have D: "invalidateConversation now2 i c3 = (Inr (), c3)" if "now \<le> now2" for now2
  proof -
    have "set (entries c3) \<subseteq> set (entries c1)"
      using entries_invalidatePattern[OF h1, of now mk] entries_invalidatePattern[OF h2, of now fk]
      by (simp add: c2_def c3_def)
    then have a: "ck \<notin> fst ` set (entries c3)" by (auto simp add: c1_def)
    have b: "\<not> str_includes k mk \<and> \<not> str_includes k fk" if "k \<in> set (live_keys now2 c3)" for k
    proof -
      have "k \<in> set (live_keys now c3)" using that live_keys_mono[OF \<open>now \<le> now2\<close>] by blast
      then show ?thesis by (simp add: k3 k2)
    qed
    have b': "\<forall>k\<in>set (live_keys now2 c3). \<not> str_includes k mk \<and> \<not> str_includes k fk"
      using b by blast
    show ?thesis
      by (rule invalidateConversation_nothing[OF h3, of i now2, folded ck_def mk_def fk_def, OF a b'])
  qed
  have E: "invalidateConversation now i c = (Inr (), c)"
    if "\<forall>k \<in> fst ` set (entries c). \<not> conversation_key i k"
  proof -
    have a: "ck \<notin> fst ` set (entries c)" using that ckey by blast
    have b: "\<forall>k\<in>set (live_keys now c). \<not> str_includes k mk \<and> \<not> str_includes k fk"
      using that ckey live_keys_subset[of now c] by blast
    show ?thesis
      by (rule invalidateConversation_nothing[OF assms, of i now, folded ck_def mk_def fk_def, OF a b])
  qed
  show ?thesis using A B C D E by (simp add: run)
qed


theorem invalidateConversation_removes_witness:
  "fst (invalidateConversation 0 ''7''
      \<lparr>entries = [(''conversation:7'', 1::nat, 1000), (''messages:7'', 2, 1000),
                  (''files:7:list'', 3, 1000), (''messages:8'', 4, 1000)], faults = []\<rparr>) = Inr ()
   \<and> lookup 0 ''files:7:list'' (snd (invalidateConversation 0 ''7''
      \<lparr>entries = [(''conversation:7'', 1::nat, 1000), (''messages:7'', 2, 1000),
                  (''files:7:list'', 3, 1000), (''messages:8'', 4, 1000)], faults = []\<rparr>)) = None
   \<and> live_keys 0 (snd (invalidateConversation 0 ''7''
      \<lparr>entries = [(''conversation:7'', 1::nat, 1000), (''messages:7'', 2, 1000),
                  (''files:7:list'', 3, 1000), (''messages:8'', 4, 1000)], faults = []\<rparr>)) = [''messages:8'']
   \<and> invalidateConversation 5 ''7'' (snd (invalidateConversation 0 ''7''
      \<lparr>entries = [(''conversation:7'', 1::nat, 1000), (''messages:7'', 2, 1000),
                  (''files:7:list'', 3, 1000), (''messages:8'', 4, 1000)], faults = []\<rparr>))
      = (Inr (), snd (invalidateConversation 0 ''7''
      \<lparr>entries = [(''conversation:7'', 1::nat, 1000), (''messages:7'', 2, 1000),
                  (''files:7:list'', 3, 1000), (''messages:8'', 4, 1000)], faults = []\<rparr>))
   \<and> invalidateConversation 0 ''9''
      \<lparr>entries = [(''conversation:7'', 1::nat, 1000), (''messages:7'', 2, 1000),
                  (''files:7:list'', 3, 1000), (''messages:8'', 4, 1000)], faults = []\<rparr>
      = (Inr (), \<lparr>entries = [(''conversation:7'', 1::nat, 1000), (''messages:7'', 2, 1000),
                  (''files:7:list'', 3, 1000), (''messages:8'', 4, 1000)], faults = []\<rparr>)"
proof -
  define c :: "nat cache" where
    "c = \<lparr>entries = [(''conversation:7'', 1::nat, 1000), (''messages:7'', 2, 1000),
                  (''files:7:list'', 3, 1000), (''messages:8'', 4, 1000)], faults = []\<rparr>"
  have h: "healthy c" by (simp add: healthy_def c_def)
  note T = invalidateConversation_removes[OF h, of 0 "''7''"]
  have a: "fst (invalidateConversation 0 ''7'' c) = Inr ()"
    using T by blast
  have k: "conversation_key ''7'' ''files:7:list''"
    by (simp add: conversation_key_def str_includes_def sublist_code)
  have b: "lookup 0 ''files:7:list'' (snd (invalidateConversation 0 ''7'' c)) = None"
    using T[THEN conjunct2, THEN conjunct1, rule_format, of "''files:7:list''"] k by simp
  have f: "filter (\<lambda>k. \<not> conversation_key ''7'' k) (live_keys 0 c) = [''messages:8'']"
    by (simp add: c_def live_keys_def conversation_key_def str_includes_def sublist_code)
  have l: "live_keys 0 (snd (invalidateConversation 0 ''7'' c)) = [''messages:8'']"
    using T[THEN conjunct2, THEN conjunct2, THEN conjunct1] f by simp
  have d: "invalidateConversation 5 ''7'' (snd (invalidateConversation 0 ''7'' c))
      = (Inr (), snd (invalidateConversation 0 ''7'' c))"
    using T[THEN conjunct2, THEN conjunct2, THEN conjunct2, THEN conjunct1, rule_format, of 5] by simp
  have n: "\<forall>k \<in> fst ` set (entries c). \<not> conversation_key ''9'' k"
    by (simp add: c_def conversation_key_def str_includes_def sublist_code)
  have e: "invalidateConversation 0 ''9'' c = (Inr (), c)"
    using invalidateConversation_removes[OF h, of 0 "''9''"] n by blast
  show ?thesis using a b l d e unfolding c_def by blast
qed

section \<open>Properties of the read-through cache\<close>

lemma getOrSet_hit:
  assumes "healthy c" "lookup now key c = Some v" "v \<noteq> JUndefined" "v \<noteq> JNull"
  shows "getOrSet store now key factory ttl c w =
    \<lparr>returned = Inr v, cache_after = c, world_after = w, factory_calls = 0\<rparr>"
  using assms by (simp add: getOrSet_def cache_get_def tick_healthy)

lemma getOrSet_miss:
  assumes "healthy c" "lookup now key c = None \<or> lookup now key c = Some JUndefined \<or> lookup now key c = Some JNull"
    and "factory w = (Inr val, w1)" and "isCacheable store val"
  shows "getOrSet store now key factory ttl c w =
    \<lparr>returned = Inr val, cache_after = c\<lparr>entries := (key, val, expiry now ttl) # remove key (entries c)\<rparr>,
     world_after = w1, factory_calls = 1\<rparr>"
  using assms by (auto simp add: getOrSet_def cache_get_def cache_set_def tick_healthy healthy_def)

lemma getOrSet_refused:
  assumes "healthy c" "lookup now key c = None \<or> lookup now key c = Some JUndefined \<or> lookup now key c = Some JNull"
    and "factory w = (Inr val, w1)" and "\<not> isCacheable store val"
  shows "getOrSet store now key factory ttl c w =
    \<lparr>returned = fst (factory w1), cache_after = c, world_after = snd (factory w1), factory_calls = 2\<rparr>"
  using assms by (auto simp add: getOrSet_def cache_get_def tick_healthy split: prod.splits)

lemma getOrSet_get_throws:
  assumes "faults c = Some e # fs"
  shows "getOrSet store now key factory ttl c w =
    \<lparr>returned = fst (factory w), cache_after = c\<lparr>faults := fs\<rparr>, world_after = snd (factory w), factory_calls = 1\<rparr>"
  using assms by (simp add: getOrSet_def cache_get_def tick_def split: prod.splits)

lemma getOrSet_set_throws:
  assumes "faults c = None # Some e # fs"
    and "lookup now key c = None \<or> lookup now key c = Some JUndefined \<or> lookup now key c = Some JNull"
    and "factory w = (Inr val, w1)" and "isCacheable store val"
  shows "getOrSet store now key factory ttl c w =
    \<lparr>returned = fst (factory w1), cache_after = c\<lparr>faults := fs\<rparr>, world_after = snd (factory w1), factory_calls = 2\<rparr>"
  using assms by (auto simp add: getOrSet_def cache_get_def cache_set_def tick_def lookup_def split: prod.splits)

text \<open>
  Claim C6, as amended.  (1) A cached value other than \<open>undefined\<close> and \<open>null\<close>, so also
  \<open>[]\<close>, \<open>0\<close>, \<open>''\<close> and \<open>false\<close>, is returned and \<open>factory\<close> is not invoked.
  (2) On a miss \<open>factory\<close> is invoked once, and a result that the store accepts is stored
  under the key with the given TTL, and returned.  (3) Hence two calls with the same key,
  the second before the entry has expired, invoke \<open>factory\<close> once in all when its result
  is neither \<open>undefined\<close> nor \<open>null\<close>.  (4, 5) When the store throws, in \<open>get\<close> or in
  \<open>set\<close>, the call settles with what a direct invocation of \<open>factory\<close> gives, not with
  the store's error.
\<close>

theorem getOrSet_read_through:
  "(healthy c \<and> lookup now key c = Some v \<and> v \<noteq> JUndefined \<and> v \<noteq> JNull \<longrightarrow>
      getOrSet store now key factory ttl c w =
        \<lparr>returned = Inr v, cache_after = c, world_after = w, factory_calls = 0\<rparr>)
   \<and> (healthy c \<and> lookup now key c = None \<and> factory w = (Inr val, w1)
        \<and> isCacheable store val \<longrightarrow>
      getOrSet store now key factory ttl c w =
        \<lparr>returned = Inr val,
         cache_after = c\<lparr>entries := (key, val, expiry now ttl) # remove key (entries c)\<rparr>,
         world_after = w1, factory_calls = 1\<rparr>)
   \<and> (healthy c \<and> lookup now key c = None \<and> factory w = (Inr val, w1)
        \<and> val \<noteq> JUndefined \<and> val \<noteq> JNull \<and> enat now2 < expiry now ttl \<longrightarrow>
      (let first = getOrSet store now key factory ttl c w;
           second = getOrSet store now2 key factory ttl (cache_after first) (world_after first)
       in returned first = Inr val \<and> returned second = Inr val
          \<and> factory_calls first + factory_calls second = 1))
   \<and> (faults c = Some e # fs \<longrightarrow>
      getOrSet store now key factory ttl c w =
        \<lparr>returned = fst (factory w), cache_after = c\<lparr>faults := fs\<rparr>,
         world_after = snd (factory w), factory_calls = 1\<rparr>)
   \<and> (faults c = None # Some e # fs \<and> lookup now key c = None \<and> factory w = (Inr val, w1)
        \<and> isCacheable store val \<longrightarrow>
      getOrSet store now key factory ttl c w =
        \<lparr>returned = fst (factory w1), cache_after = c\<lparr>faults := fs\<rparr>,
         world_after = snd (factory w1), factory_calls = 2\<rparr>)"
proof -
  have two: "let first = getOrSet store now key factory ttl c w;
           second = getOrSet store now2 key factory ttl (cache_after first) (world_after first)
       in returned first = Inr val \<and> returned second = Inr val
          \<and> factory_calls first + factory_calls second = 1"
    if h: "healthy c" and m: "lookup now key c = None" and f: "factory w = (Inr val, w1)"
      and p: "val \<noteq> JUndefined" "val \<noteq> JNull" and t: "enat now2 < expiry now ttl"
  proof -
    let ?c1 = "c\<lparr>entries := (key, val, expiry now ttl) # remove key (entries c)\<rparr>"
    have ok: "isCacheable store val" using p by (cases store) (simp_all add: isCacheable_def)
    have first: "getOrSet store now key factory ttl c w =
        \<lparr>returned = Inr val, cache_after = ?c1, world_after = w1, factory_calls = 1\<rparr>"
      using getOrSet_miss[of c now key factory w val w1 store ttl] h m f ok by blast
    have h1: "healthy ?c1" using h by (simp add: healthy_def)
    have l1: "lookup now2 key ?c1 = Some val" using t by (simp add: lookup_def)
    have second: "getOrSet store now2 key factory ttl ?c1 w1 =
        \<lparr>returned = Inr val, cache_after = ?c1, world_after = w1, factory_calls = 0\<rparr>"
      using getOrSet_hit[OF h1 l1 p] .
    show ?thesis by (simp add: first second)
  qed
  show ?thesis
    using getOrSet_hit[of c now key v store factory ttl w]
      getOrSet_miss[of c now key factory w val w1 store ttl]
      getOrSet_get_throws[of c e fs store now key factory ttl w]
      getOrSet_set_throws[of c e fs now key factory w val w1 store ttl]
      two
    by blast
qed

text \<open>
  Claim C10.  On a miss with a healthy store, a \<open>factory\<close> that rejects is invoked a
  second time by the \<open>catch\<close> block, and the caller gets the outcome of that second
  invocation; nothing is stored.
\<close>

theorem getOrSet_factory_twice:
  assumes "healthy c"
    and "lookup now key c = None \<or> lookup now key c = Some JUndefined \<or> lookup now key c = Some JNull"
    and "factory w = (Inl err, w1)"
  shows "getOrSet store now key factory ttl c w =
    \<lparr>returned = fst (factory w1), cache_after = c, world_after = snd (factory w1), factory_calls = 2\<rparr>"
  using assms by (auto simp add: getOrSet_def cache_get_def tick_healthy split: prod.splits)

theorem getOrSet_read_through_witness:
  "getOrSet RedisStore 5 ''k'' (\<lambda>n::nat. (Inr (JArr []), Suc n)) 300
      \<lparr>entries = [(''k'', JNum 0, 1000)], faults = []\<rparr> 0
     = \<lparr>returned = Inr (JNum 0), cache_after = \<lparr>entries = [(''k'', JNum 0, 1000)], faults = []\<rparr>,
        world_after = 0, factory_calls = 0\<rparr>
   \<and> getOrSet RedisStore 5 ''k'' (\<lambda>n::nat. (Inr (JArr []), Suc n)) 300 \<lparr>entries = [], faults = []\<rparr> 0
     = \<lparr>returned = Inr (JArr []), cache_after = \<lparr>entries = [(''k'', JArr [], 305)], faults = []\<rparr>,
        world_after = 1, factory_calls = 1\<rparr>
   \<and> (let first = getOrSet RedisStore 5 ''k'' (\<lambda>n::nat. (Inr (JArr []), Suc n)) 300
                      \<lparr>entries = [], faults = []\<rparr> 0;
           second = getOrSet RedisStore 9 ''k'' (\<lambda>n::nat. (Inr (JArr []), Suc n)) 300
                      (cache_after first) (world_after first)
       in returned first = Inr (JArr []) \<and> returned second = Inr (JArr [])
          \<and> factory_calls first + factory_calls second = 1)
   \<and> getOrSet RedisStore 5 ''k'' (\<lambda>n::nat. (Inr (JArr []), Suc n)) 300
      \<lparr>entries = [], faults = [Some \<lparr>err_name = ''Error'', err_code = ''ECONNREFUSED'',
                                    err_status = None, err_message = ''store down''\<rparr>]\<rparr> 0
     = \<lparr>returned = Inr (JArr []), cache_after = \<lparr>entries = [], faults = []\<rparr>,
        world_after = 1, factory_calls = 1\<rparr>
   \<and> getOrSet RedisStore 5 ''k'' (\<lambda>n::nat. (Inr (JArr []), Suc n)) 300
      \<lparr>entries = [], faults = [None, Some \<lparr>err_name = ''Error'', err_code = ''ECONNREFUSED'',
                                    err_status = None, err_message = ''store down''\<rparr>]\<rparr> 0
     = \<lparr>returned = Inr (JArr []), cache_after = \<lparr>entries = [], faults = []\<rparr>,
        world_after = 2, factory_calls = 2\<rparr>"
proof -
  define F :: "nat \<Rightarrow> (js_error + js_value) \<times> nat" where "F = (\<lambda>n. (Inr (JArr []), Suc n))"
  define E where "E = \<lparr>err_name = ''Error'', err_code = ''ECONNREFUSED'',
                                    err_status = None, err_message = ''store down''\<rparr>"
  define c0 :: "js_value cache" where "c0 = \<lparr>entries = [], faults = []\<rparr>"
  define ch :: "js_value cache" where "ch = \<lparr>entries = [(''k'', JNum 0, 1000)], faults = []\<rparr>"
  define cg :: "js_value cache" where "cg = \<lparr>entries = [], faults = [Some E]\<rparr>"
  define cs :: "js_value cache" where "cs = \<lparr>entries = [], faults = [None, Some E]\<rparr>"
  have ok: "isCacheable RedisStore (JArr [])" by (simp add: isCacheable_def)
  have a: "getOrSet RedisStore 5 ''k'' F 300 ch 0
      = \<lparr>returned = Inr (JNum 0), cache_after = ch, world_after = 0, factory_calls = 0\<rparr>"
    using getOrSet_read_through[where c = ch and now = 5 and key = "''k''" and v = "JNum 0"
        and store = RedisStore and factory = F and ttl = 300 and w = 0, THEN conjunct1]
    by (simp add: ch_def healthy_def lookup_def)
  have b: "getOrSet RedisStore 5 ''k'' F 300 c0 0
      = \<lparr>returned = Inr (JArr []), cache_after = \<lparr>entries = [(''k'', JArr [], 305)], faults = []\<rparr>,
        world_after = 1, factory_calls = 1\<rparr>"
    using getOrSet_read_through[where c = c0 and now = 5 and key = "''k''"
        and store = RedisStore and factory = F and ttl = 300 and w = 0 and val = "JArr []"
        and ?w1.0 = 1, THEN conjunct2, THEN conjunct1] ok
    by (simp add: c0_def healthy_def lookup_def F_def remove_def expiry_def)
  have c: "let first = getOrSet RedisStore 5 ''k'' F 300 c0 0;
               second = getOrSet RedisStore 9 ''k'' F 300 (cache_after first) (world_after first)
       in returned first = Inr (JArr []) \<and> returned second = Inr (JArr [])
          \<and> factory_calls first + factory_calls second = 1"
    using getOrSet_read_through[where c = c0 and now = 5 and key = "''k''"
        and store = RedisStore and factory = F and ttl = 300 and w = 0 and val = "JArr []"
        and ?w1.0 = 1 and ?now2.0 = 9, THEN conjunct2, THEN conjunct2, THEN conjunct1]
    by (simp add: c0_def healthy_def lookup_def F_def expiry_def)
  have d: "getOrSet RedisStore 5 ''k'' F 300 cg 0
      = \<lparr>returned = Inr (JArr []), cache_after = c0, world_after = 1, factory_calls = 1\<rparr>"
    using getOrSet_read_through[where c = cg and now = 5 and key = "''k''"
        and store = RedisStore and factory = F and ttl = 300 and w = 0 and e = E and fs = "[]",
        THEN conjunct2, THEN conjunct2, THEN conjunct2, THEN conjunct1]
    by (simp add: cg_def c0_def F_def)
  have e: "getOrSet RedisStore 5 ''k'' F 300 cs 0
      = \<lparr>returned = Inr (JArr []), cache_after = c0, world_after = 2, factory_calls = 2\<rparr>"
    using getOrSet_read_through[where c = cs and now = 5 and key = "''k''"
        and store = RedisStore and factory = F and ttl = 300 and w = 0 and val = "JArr []"
        and ?w1.0 = 1 and e = E and fs = "[]",
        THEN conjunct2, THEN conjunct2, THEN conjunct2, THEN conjunct2] ok
    by (simp add: cs_def c0_def F_def lookup_def)
  show ?thesis
    using a b c d e unfolding F_def E_def c0_def ch_def cg_def cs_def by blast
qed

text \<open>
  Claim C6 as stated fails where \<open>factory\<close> resolves with \<open>null\<close> or \<open>undefined\<close>.  On
  the memory store a \<open>null\<close> is stored and still present 10 ms later, but reads as a miss:
  two calls invoke \<open>factory\<close> twice.  An \<open>undefined\<close> is refused by \<open>set\<close>, so that
  the miss stores nothing and the one call invokes \<open>factory\<close> twice.
\<close>

theorem getOrSet_null_counterexample:
  "factory_calls (getOrSet MemoryStore 0 ''k'' (\<lambda>n::nat. (Inr JNull, Suc n)) 300
      \<lparr>entries = [], faults = []\<rparr> 0) = 1
   \<and> lookup 10 ''k'' (cache_after (getOrSet MemoryStore 0 ''k'' (\<lambda>n::nat. (Inr JNull, Suc n)) 300
      \<lparr>entries = [], faults = []\<rparr> 0)) = Some JNull
   \<and> factory_calls (getOrSet MemoryStore 10 ''k'' (\<lambda>n::nat. (Inr JNull, Suc n)) 300
      (cache_after (getOrSet MemoryStore 0 ''k'' (\<lambda>n::nat. (Inr JNull, Suc n)) 300
         \<lparr>entries = [], faults = []\<rparr> 0))
      (world_after (getOrSet MemoryStore 0 ''k'' (\<lambda>n::nat. (Inr JNull, Suc n)) 300
         \<lparr>entries = [], faults = []\<rparr> 0))) = 1
   \<and> getOrSet MemoryStore 0 ''k'' (\<lambda>n::nat. (Inr JUndefined, Suc n)) 300
      \<lparr>entries = [], faults = []\<rparr> 0
     = \<lparr>returned = Inr JUndefined, cache_after = \<lparr>entries = [], faults = []\<rparr>,
        world_after = 2, factory_calls = 2\<rparr>"
  by (simp add: getOrSet_def cache_get_def cache_set_def tick_def lookup_def remove_def
      isCacheable_def expiry_def)

text \<open>
  The TTL as the store keeps it: an entry written with \<open>ttl = 300\<close> is gone 300 ms later,
  so a second call after one second invokes \<open>factory\<close> again.
\<close>

lemma getOrSet_ttl_in_milliseconds:
  "factory_calls (getOrSet RedisStore 1000 ''k'' (\<lambda>n::nat. (Inr (JNum 5), Suc n)) 300
      (cache_after (getOrSet RedisStore 0 ''k'' (\<lambda>n::nat. (Inr (JNum 5), Suc n)) 300
         \<lparr>entries = [], faults = []\<rparr> 0))
      (world_after (getOrSet RedisStore 0 ''k'' (\<lambda>n::nat. (Inr (JNum 5), Suc n)) 300
         \<lparr>entries = [], faults = []\<rparr> 0))) = 1"
  by (simp add: getOrSet_def cache_get_def cache_set_def tick_def lookup_def remove_def
      isCacheable_def expiry_def)

theorem getOrSet_factory_twice_witness:
  "getOrSet RedisStore 0 ''k''
     (\<lambda>n::nat. (if n = 0 then Inl \<lparr>err_name = ''NotFoundException'', err_code = [],
                                      err_status = None, err_message = ''Conversation not found''\<rparr>
                 else Inr (JNum 5), Suc n))
     300 \<lparr>entries = [], faults = []\<rparr> 0
   = \<lparr>returned = Inr (JNum 5), cache_after = \<lparr>entries = [], faults = []\<rparr>,
      world_after = 2, factory_calls = 2\<rparr>"
proof -
  define E where "E = \<lparr>err_name = ''NotFoundException'', err_code = [],
                                      err_status = None, err_message = ''Conversation not found''\<rparr>"
  define G :: "nat \<Rightarrow> (js_error + js_value) \<times> nat"
    where "G = (\<lambda>n. (if n = 0 then Inl E else Inr (JNum 5), Suc n))"
  define c0 :: "js_value cache" where "c0 = \<lparr>entries = [], faults = []\<rparr>"
  have h: "healthy c0" by (simp add: c0_def healthy_def)
  have m: "lookup 0 ''k'' c0 = None \<or> lookup 0 ''k'' c0 = Some JUndefined \<or> lookup 0 ''k'' c0 = Some JNull"
    by (simp add: c0_def lookup_def)
  have f: "G 0 = (Inl E, 1)" by (simp add: G_def)
  have "getOrSet RedisStore 0 ''k'' G 300 c0 0
      = \<lparr>returned = Inr (JNum 5), cache_after = c0, world_after = 2, factory_calls = 2\<rparr>"
    using getOrSet_factory_twice[where c = c0 and now = 0 and key = "''k''" and factory = G
        and w = 0 and err = E and ?w1.0 = 1 and ttl = 300 and store = RedisStore] h m f
    by (simp add: G_def)
  then show ?thesis unfolding G_def E_def c0_def .
qed

section \<open>Properties of the stream registry\<close>

lemma cache_set_entries:
  assumes "cache_set now k v ttl c = (Inr u, c1)"
  shows "entries c1 = (k, v, expiry now ttl) # remove k (entries c)"
  using assms
  by (auto simp add: cache_set_def tick_def split: list.splits option.splits)

lemma cache_get_entries:
  assumes "cache_get now k c = (r, c1)"
  shows "entries c1 = entries c"
  using assms
  by (auto simp add: cache_get_def tick_def split: list.splits option.splits)

lemma map_of_poke_other:
  "k \<noteq> k' \<Longrightarrow> map_of (map (\<lambda>e. if fst e = k' then (k', v, snd (snd e)) else e) es) k = map_of es k"
  by (induction es) auto

text \<open>
  At creation the session is stored with \<open>lastActivityAt = createdAt = now\<close> and
  \<open>expiresAt = lastActivityAt + 300 s\<close>, as Dates on the memory store and as their ISO
  strings on the Redis store.
\<close>

lemma registerStream_creates:
  assumes "fst (registerStream store uuid now uid cid c) = Inr uuid"
  shows "lookup now (''stream:'' @ uuid) (snd (registerStream store uuid now uid cid c)) =
    Some (stored store (Info \<lparr>streamId = uuid, userId = uid, conversationId = cid,
                 createdAt = DateObj now, lastActivityAt = DateObj now,
                 expiresAt = DateObj (now + STREAM_TIMEOUT * 1000)\<rparr>))"
proof -
  define si where "si = \<lparr>streamId = uuid, userId = uid, conversationId = cid,
                         createdAt = DateObj now, lastActivityAt = DateObj now,
                         expiresAt = DateObj (now + STREAM_TIMEOUT * 1000)\<rparr>"
  define key where "key = ''stream:'' @ uuid"
  define usk where "usk = ''user_streams:'' @ uid"
  have ne: "usk \<noteq> key" "key \<noteq> usk" by (simp_all add: usk_def key_def)
  obtain r1 c1 where s1: "cache_set now key (stored store (Info si)) STREAM_TIMEOUT c = (r1, c1)"
    by (cases "cache_set now key (stored store (Info si)) STREAM_TIMEOUT c")
  obtain r2 c2 where g2: "cache_get now usk c1 = (r2, c2)"
    by (cases "cache_get now usk c1")
  define ids where "ids = (case r2 of Inr (Some (Ids xs)) \<Rightarrow> xs | _ \<Rightarrow> []) @ [uuid]"
  define pushed where "pushed =
     (case (store, r2) of (MemoryStore, Inr (Some (Ids xs))) \<Rightarrow> poke usk (Ids ids) c2 | _ \<Rightarrow> c2)"
  obtain r3 c3 where s3: "cache_set now usk (stored store (Ids ids)) STREAM_TIMEOUT pushed = (r3, c3)"
    by (cases "cache_set now usk (stored store (Ids ids)) STREAM_TIMEOUT pushed")
  have run: "registerStream store uuid now uid cid c =
      (case r1 of Inl e \<Rightarrow> (Inl e, c1)
       | Inr _ \<Rightarrow> (case r2 of Inl e \<Rightarrow> (Inl e, c2)
           | Inr (Some (Info other)) \<Rightarrow> (Inl typeError, c2)
           | Inr _ \<Rightarrow> (case r3 of Inl e \<Rightarrow> (Inl e, c3) | Inr _ \<Rightarrow> (Inr uuid, c3))))"
    using s1 g2 s3
    by (simp only: registerStream_def Let_def si_def[symmetric] key_def[symmetric] usk_def[symmetric])
       (auto simp add: ids_def pushed_def
          split: sum.splits option.splits stream_value.splits store_kind.splits)
  have ok: "r1 = Inr () \<and> r3 = Inr () \<and> snd (registerStream store uuid now uid cid c) = c3"
    using assms unfolding run
    by (auto split: sum.splits option.splits stream_value.splits)
  have e1: "entries c1 = (key, stored store (Info si), expiry now STREAM_TIMEOUT) # remove key (entries c)"
    using s1 ok by (simp add: cache_set_entries)
  have e2: "entries c2 = entries c1" using g2 by (rule cache_get_entries)
  have mp: "map_of (entries pushed) key = map_of (entries c2) key"
    using ne by (auto simp add: pushed_def poke_def map_of_poke_other
        split: store_kind.splits sum.splits option.splits stream_value.splits)
  have e3: "entries c3 = (usk, stored store (Ids ids), expiry now STREAM_TIMEOUT) # remove usk (entries pushed)"
    using s3 ok by (simp add: cache_set_entries)
  have "map_of (entries c3) key = map_of (entries pushed) key"
    using ne by (simp add: e3 remove_def map_of_filter_key[where Q = "\<lambda>k. k \<noteq> usk"])
  then have "map_of (entries c3) key = Some (stored store (Info si), expiry now STREAM_TIMEOUT)"
    by (simp add: mp e2 e1)
  then have "lookup now key c3 = Some (stored store (Info si))"
    by (simp add: lookup_def live_at_writing)
  then show ?thesis using ok by (simp only: key_def si_def)
qed

lemma registerStream_redis_example:
  "registerStream RedisStore ''s1'' 0 ''u'' ''c'' \<lparr>entries = [], faults = []\<rparr> =
    (Inr ''s1'',
     \<lparr>entries = [(''user_streams:u'', Ids [''s1''], 300),
                 (''stream:s1'', Info \<lparr>streamId = ''s1'', userId = ''u'', conversationId = ''c'',
                    createdAt = DateString 0, lastActivityAt = DateString 0,
                    expiresAt = DateString 300000\<rparr>, 300)],
      faults = []\<rparr>)"
  by (simp add: registerStream_def Let_def cache_get_def cache_set_def tick_def lookup_def
      remove_def STREAM_TIMEOUT_def stored_def toJSON_def expiry_def)

lemma registerStream_memory_example:
  "registerStream MemoryStore ''s1'' 0 ''u'' ''c'' \<lparr>entries = [], faults = []\<rparr> =
    (Inr ''s1'',
     \<lparr>entries = [(''user_streams:u'', Ids [''s1''], 300),
                 (''stream:s1'', Info \<lparr>streamId = ''s1'', userId = ''u'', conversationId = ''c'',
                    createdAt = DateObj 0, lastActivityAt = DateObj 0,
                    expiresAt = DateObj 300000\<rparr>, 300)],
      faults = []\<rparr>)"
  by (simp add: registerStream_def Let_def cache_get_def cache_set_def tick_def lookup_def
      remove_def STREAM_TIMEOUT_def stored_def expiry_def)

text \<open>
  Claim C5 at a failing scenario: a session registered at 0 and touched 100 ms later.  On
  the Redis store \<open>expiresAt\<close> comes back as a string, \<open>getTime\<close> throws, and
  \<open>updateActivity\<close> rejects with a \<open>TypeError\<close>, the store as it was and
  \<open>lastActivityAt\<close> still 0.  On the memory store the session is kept with
  \<open>lastActivityAt = 100\<close> and \<open>expiresAt = 300000\<close>, which is not
  \<open>lastActivityAt + 300 s\<close>.
\<close>

theorem updateActivity_loses_expiry:
  "updateActivity RedisStore 100 100 ''s1''
      (snd (registerStream RedisStore ''s1'' 0 ''u'' ''c'' \<lparr>entries = [], faults = []\<rparr>))
     = (Inl typeError, snd (registerStream RedisStore ''s1'' 0 ''u'' ''c'' \<lparr>entries = [], faults = []\<rparr>))
   \<and> lookup 100 ''stream:s1''
        (snd (updateActivity MemoryStore 100 100 ''s1''
               (snd (registerStream MemoryStore ''s1'' 0 ''u'' ''c'' \<lparr>entries = [], faults = []\<rparr>))))
     = Some (Info \<lparr>streamId = ''s1'', userId = ''u'', conversationId = ''c'',
                    createdAt = DateObj 0, lastActivityAt = DateObj 100,
                    expiresAt = DateObj 300000\<rparr>)"
  by (simp add: registerStream_redis_example registerStream_memory_example updateActivity_def
      Let_def cache_get_def cache_set_def tick_def lookup_def remove_def poke_def getTime_def
      stored_def expiry_def)

text \<open>
  The TTL as the store keeps it: registered with \<open>STREAM_TIMEOUT = 300\<close>, the session is
  gone from the store after 300 ms, while its \<open>expiresAt\<close> says 300 s.
\<close>

lemma registerStream_ttl_in_milliseconds:
  "lookup 300 ''stream:s1''
     (snd (registerStream MemoryStore ''s1'' 0 ''u'' ''c'' \<lparr>entries = [], faults = []\<rparr>)) = None"
  by (simp add: registerStream_memory_example lookup_def)

section \<open>Properties of the retry wrapper\<close>

declare callAIEngineWithRetry.simps [simp del]

lemma rethrow_now:
  assumes "post_attempt upstream now attempt externalSignal = (t, Rejected error)"
    and "is_canceled error \<or> is_client_error error \<or> \<not> attempt < MAX_RETRIES"
  shows "callAIEngineWithRetry upstream now attempt externalSignal =
    \<lparr>result = Inl error, events = [Attempt attempt now], finished = t\<rparr>"
  using assms by (auto simp add: callAIEngineWithRetry.simps)

lemma retry_step:
  assumes "post_attempt upstream now attempt externalSignal = (t, Rejected error)"
    and "\<not> is_canceled error" "\<not> is_client_error error" "attempt < MAX_RETRIES"
  shows "callAIEngineWithRetry upstream now attempt externalSignal =
    (callAIEngineWithRetry upstream (t + retry_delay attempt) (attempt + 1) None)
      \<lparr>events := Attempt attempt now # Delay (retry_delay attempt)
          # events (callAIEngineWithRetry upstream (t + retry_delay attempt) (attempt + 1) None)\<rparr>"
  using assms by (simp add: callAIEngineWithRetry.simps[of upstream now attempt] Let_def)

lemma resolve_now:
  assumes "post_attempt upstream now attempt externalSignal = (t, Resolved response)"
  shows "callAIEngineWithRetry upstream now attempt externalSignal =
    \<lparr>result = Inr response, events = [Attempt attempt now], finished = t\<rparr>"
  using assms by (simp add: callAIEngineWithRetry.simps)

lemma attempts_bounded:
  "length (attempts (events (callAIEngineWithRetry upstream now attempt externalSignal)))
     \<le> Suc (MAX_RETRIES - attempt)"
proof (induction upstream now attempt externalSignal rule: callAIEngineWithRetry.induct)
  case (1 upstream now attempt externalSignal)
  obtain t outcome where p: "post_attempt upstream now attempt externalSignal = (t, outcome)"
    by (cases "post_attempt upstream now attempt externalSignal")
  show ?case
  proof (cases outcome)
    case (Resolved response)
    then show ?thesis using p by (simp add: resolve_now)
  next
    case (Rejected error)
    show ?thesis
    proof (cases "is_canceled error \<or> is_client_error error \<or> \<not> attempt < MAX_RETRIES")
      case True
      then show ?thesis using p Rejected by (simp add: rethrow_now)
    next
      case False
      then have c: "\<not> is_canceled error" "\<not> is_client_error error" "attempt < MAX_RETRIES" by auto
      have ih: "length (attempts (events
            (callAIEngineWithRetry upstream (t + retry_delay attempt) (attempt + 1) None)))
          \<le> Suc (MAX_RETRIES - (attempt + 1))"
        using "1.IH"[OF p[symmetric] Rejected c refl] .
      show ?thesis
        using ih c(3) by (simp add: retry_step[OF p[unfolded Rejected] c])
    qed
  qed
qed

lemma post_attempt_unsignalled:
  assumes "upstream attempt = (d, outcome)" "d \<le> AI_ENGINE_TIMEOUT"
  shows "post_attempt upstream now attempt None = (now + d, outcome)"
  using assms by (simp add: post_attempt_def Let_def)


text \<open>
  Claim C3.  Let the attempt number \<open>attempt\<close>, started at \<open>now\<close>, fail at \<open>t\<close> with
  \<open>error\<close>.  If the error carries a status in 400..499 the call rejects with it at once:
  one attempt, no delay.  If it is neither that nor a cancellation, then for
  \<open>attempt < 3\<close> the call waits \<open>min (1000 * 2 ^ (attempt - 1)) 10000\<close> ms and goes on
  as the attempt \<open>attempt + 1\<close>, and from the third attempt on it rejects with this last
  error.  A call started as attempt 1 never makes more than three attempts; when all three
  fail in this way it waits 1000 ms and 2000 ms between them and rejects with the error of
  the third.
\<close>

theorem callAIEngineWithRetry_policy:
  "(post_attempt upstream now attempt externalSignal = (t, Rejected error)
      \<and> is_client_error error \<longrightarrow>
      callAIEngineWithRetry upstream now attempt externalSignal =
        \<lparr>result = Inl error, events = [Attempt attempt now], finished = t\<rparr>)
   \<and> (post_attempt upstream now attempt externalSignal = (t, Rejected error)
      \<and> \<not> is_canceled error \<and> \<not> is_client_error error \<and> 1 \<le> attempt \<and> attempt < 3 \<longrightarrow>
      callAIEngineWithRetry upstream now attempt externalSignal =
        (callAIEngineWithRetry upstream (t + min (1000 * 2 ^ (attempt - 1)) 10000) (attempt + 1) None)
          \<lparr>events := Attempt attempt now # Delay (min (1000 * 2 ^ (attempt - 1)) 10000)
             # events (callAIEngineWithRetry upstream (t + min (1000 * 2 ^ (attempt - 1)) 10000)
                          (attempt + 1) None)\<rparr>)
   \<and> (post_attempt upstream now attempt externalSignal = (t, Rejected error)
      \<and> \<not> is_canceled error \<and> \<not> is_client_error error \<and> 3 \<le> attempt \<longrightarrow>
      callAIEngineWithRetry upstream now attempt externalSignal =
        \<lparr>result = Inl error, events = [Attempt attempt now], finished = t\<rparr>)
   \<and> length (attempts (events (callAIEngineWithRetry upstream now 1 externalSignal))) \<le> 3
   \<and> (upstream 1 = (d1, Rejected e1) \<and> upstream 2 = (d2, Rejected e2)
      \<and> upstream 3 = (d3, Rejected e3)
      \<and> d1 \<le> AI_ENGINE_TIMEOUT \<and> d2 \<le> AI_ENGINE_TIMEOUT \<and> d3 \<le> AI_ENGINE_TIMEOUT
      \<and> \<not> is_canceled e1 \<and> \<not> is_client_error e1
      \<and> \<not> is_canceled e2 \<and> \<not> is_client_error e2
      \<and> \<not> is_canceled e3 \<and> \<not> is_client_error e3 \<longrightarrow>
      callAIEngineWithRetry upstream now 1 None =
        \<lparr>result = Inl e3,
         events = [Attempt 1 now, Delay 1000, Attempt 2 (now + d1 + 1000), Delay 2000,
                   Attempt 3 (now + d1 + 1000 + d2 + 2000)],
         finished = now + d1 + 1000 + d2 + 2000 + d3\<rparr>)"
proof -
  have A: "callAIEngineWithRetry upstream now attempt externalSignal =
        \<lparr>result = Inl error, events = [Attempt attempt now], finished = t\<rparr>"
    if "post_attempt upstream now attempt externalSignal = (t, Rejected error)"
      "is_client_error error"
    using rethrow_now[OF that(1)] that(2) by simp
  have B: "callAIEngineWithRetry upstream now attempt externalSignal =
        (callAIEngineWithRetry upstream (t + min (1000 * 2 ^ (attempt - 1)) 10000) (attempt + 1) None)
          \<lparr>events := Attempt attempt now # Delay (min (1000 * 2 ^ (attempt - 1)) 10000)
             # events (callAIEngineWithRetry upstream (t + min (1000 * 2 ^ (attempt - 1)) 10000)
                          (attempt + 1) None)\<rparr>"
    if p: "post_attempt upstream now attempt externalSignal = (t, Rejected error)"
      and c: "\<not> is_canceled error" "\<not> is_client_error error" and a: "1 \<le> attempt" "attempt < 3"
  proof -
    have d: "retry_delay attempt = min (1000 * 2 ^ (attempt - 1)) 10000"
      using a by (simp add: retry_delay_def)
    have m: "attempt < MAX_RETRIES" using a by (simp add: MAX_RETRIES_def)
    show ?thesis using retry_step[OF p c m] unfolding d .
  qed
  have C: "callAIEngineWithRetry upstream now attempt externalSignal =
        \<lparr>result = Inl error, events = [Attempt attempt now], finished = t\<rparr>"
    if "post_attempt upstream now attempt externalSignal = (t, Rejected error)" "3 \<le> attempt"
    using rethrow_now[OF that(1)] that(2) by (simp add: MAX_RETRIES_def)
  have D: "length (attempts (events (callAIEngineWithRetry upstream now 1 externalSignal))) \<le> 3"
    using attempts_bounded[of upstream now 1 externalSignal] by (simp add: MAX_RETRIES_def)
  have E: "callAIEngineWithRetry upstream now 1 None =
        \<lparr>result = Inl e3,
         events = [Attempt 1 now, Delay 1000, Attempt 2 (now + d1 + 1000), Delay 2000,
                   Attempt 3 (now + d1 + 1000 + d2 + 2000)],
         finished = now + d1 + 1000 + d2 + 2000 + d3\<rparr>"
    if u: "upstream 1 = (d1, Rejected e1)" "upstream 2 = (d2, Rejected e2)"
        "upstream 3 = (d3, Rejected e3)"
      and d: "d1 \<le> AI_ENGINE_TIMEOUT" "d2 \<le> AI_ENGINE_TIMEOUT" "d3 \<le> AI_ENGINE_TIMEOUT"
      and e: "\<not> is_canceled e1" "\<not> is_client_error e1" "\<not> is_canceled e2" "\<not> is_client_error e2"
        "\<not> is_canceled e3" "\<not> is_client_error e3"
  proof -
    have p3: "post_attempt upstream (now + d1 + 1000 + d2 + 2000) 3 None
        = (now + d1 + 1000 + d2 + 2000 + d3, Rejected e3)"
      using post_attempt_unsignalled[where upstream = upstream and attempt = 3] u(3) d(3) by simp
    have r3: "callAIEngineWithRetry upstream (now + d1 + 1000 + d2 + 2000) 3 None =
        \<lparr>result = Inl e3, events = [Attempt 3 (now + d1 + 1000 + d2 + 2000)],
         finished = now + d1 + 1000 + d2 + 2000 + d3\<rparr>"
      using rethrow_now[OF p3] by (simp add: MAX_RETRIES_def)
    have dl: "retry_delay 1 = 1000" "retry_delay 2 = 2000"
      by (simp_all add: retry_delay_def)
    have m: "1 < MAX_RETRIES" "2 < MAX_RETRIES" by (simp_all add: MAX_RETRIES_def)
    have n: "(1::nat) + 1 = 2" "(2::nat) + 1 = 3" by simp_all
    have t: "now + d1 + 1000 + d2 + 2000 = now + d1 + 1000 + d2 + 2000" ..
    have p2: "post_attempt upstream (now + d1 + 1000) 2 None = (now + d1 + 1000 + d2, Rejected e2)"
      using post_attempt_unsignalled[where upstream = upstream and attempt = 2] u(2) d(2) by simp
    have r2: "callAIEngineWithRetry upstream (now + d1 + 1000) 2 None =
        \<lparr>result = Inl e3,
         events = [Attempt 2 (now + d1 + 1000), Delay 2000, Attempt 3 (now + d1 + 1000 + d2 + 2000)],
         finished = now + d1 + 1000 + d2 + 2000 + d3\<rparr>"
      unfolding retry_step[OF p2 e(3,4) m(2)] dl n r3 by simp
    have p1: "post_attempt upstream now 1 None = (now + d1, Rejected e1)"
      using post_attempt_unsignalled[where upstream = upstream and attempt = 1] u(1) d(1) by simp
    show ?thesis
      unfolding retry_step[OF p1 e(1,2) m(1)] dl n r2 by simp
  qed
  show ?thesis using A B C D E by blast
qed


theorem callAIEngineWithRetry_policy_witness:
  "callAIEngineWithRetry
     (\<lambda>n. (10, Rejected \<lparr>err_name = ''AxiosError'', err_code = ''ERR_BAD_REQUEST'',
                           err_status = Some 404, err_message = ''Not Found''\<rparr>
                :: string settled)) 0 1 None
     = \<lparr>result = Inl \<lparr>err_name = ''AxiosError'', err_code = ''ERR_BAD_REQUEST'',
                           err_status = Some 404, err_message = ''Not Found''\<rparr>,
        events = [Attempt 1 0], finished = 10\<rparr>
   \<and> callAIEngineWithRetry
     (\<lambda>n. if n = 2
          then (10, Rejected \<lparr>err_name = ''AxiosError'', err_code = ''ERR_BAD_RESPONSE'',
                               err_status = Some 503, err_message = ''Service Unavailable''\<rparr>)
          else (10, Resolved ''stream'')) 0 2 None
     = \<lparr>result = Inr ''stream'', events = [Attempt 2 0, Delay 2000, Attempt 3 2010],
        finished = 2020\<rparr>
   \<and> callAIEngineWithRetry
     (\<lambda>n. (10, Rejected \<lparr>err_name = ''AxiosError'', err_code = ''ERR_BAD_RESPONSE'',
                           err_status = Some 503, err_message = ''Service Unavailable''\<rparr>
                :: string settled)) 0 3 None
     = \<lparr>result = Inl \<lparr>err_name = ''AxiosError'', err_code = ''ERR_BAD_RESPONSE'',
                           err_status = Some 503, err_message = ''Service Unavailable''\<rparr>,
        events = [Attempt 3 0], finished = 10\<rparr>
   \<and> callAIEngineWithRetry
     (\<lambda>n. (10, Rejected \<lparr>err_name = ''AxiosError'', err_code = ''ERR_BAD_RESPONSE'',
                           err_status = Some 503, err_message = ''Service Unavailable''\<rparr>
                :: string settled)) 0 1 None
     = \<lparr>result = Inl \<lparr>err_name = ''AxiosError'', err_code = ''ERR_BAD_RESPONSE'',
                           err_status = Some 503, err_message = ''Service Unavailable''\<rparr>,
        events = [Attempt 1 0, Delay 1000, Attempt 2 1010, Delay 2000, Attempt 3 3020],
        finished = 3030\<rparr>"
proof -
  define e404 where "e404 = \<lparr>err_name = ''AxiosError'', err_code = ''ERR_BAD_REQUEST'',
                           err_status = Some 404, err_message = ''Not Found''\<rparr>"
  define e503 where "e503 = \<lparr>err_name = ''AxiosError'', err_code = ''ERR_BAD_RESPONSE'',
                               err_status = Some 503, err_message = ''Service Unavailable''\<rparr>"
  define U4 :: "string upstream" where "U4 = (\<lambda>n. (10, Rejected e404))"
  define U5 :: "string upstream" where "U5 = (\<lambda>n. (10, Rejected e503))"
  define U2 :: "string upstream"
    where "U2 = (\<lambda>n. if n = 2 then (10, Rejected e503) else (10, Resolved ''stream''))"
  have c4: "is_client_error e404" by (simp add: is_client_error_def e404_def)
  have c5: "\<not> is_canceled e503" "\<not> is_client_error e503"
    by (simp_all add: is_client_error_def is_canceled_def e503_def)
  have p4: "post_attempt U4 0 1 None = (10, Rejected e404)"
    by (simp add: post_attempt_def U4_def AI_ENGINE_TIMEOUT_def)
  have w1: "callAIEngineWithRetry U4 0 1 None
      = \<lparr>result = Inl e404, events = [Attempt 1 0], finished = 10\<rparr>"
    using callAIEngineWithRetry_policy[where upstream = U4 and now = 0 and attempt = 1
        and externalSignal = None and t = 10 and error = e404, THEN conjunct1] p4 c4
    by simp
  have p2: "post_attempt U2 0 2 None = (10, Rejected e503)"
    by (simp add: post_attempt_def U2_def AI_ENGINE_TIMEOUT_def)
  have r2: "callAIEngineWithRetry U2 2010 3 None
      = \<lparr>result = Inr ''stream'', events = [Attempt 3 2010], finished = 2020\<rparr>"
    by (simp add: callAIEngineWithRetry.simps post_attempt_def U2_def AI_ENGINE_TIMEOUT_def)
  have w2: "callAIEngineWithRetry U2 0 2 None
      = \<lparr>result = Inr ''stream'', events = [Attempt 2 0, Delay 2000, Attempt 3 2010],
        finished = 2020\<rparr>"
    using callAIEngineWithRetry_policy[where upstream = U2 and now = 0 and attempt = 2
        and externalSignal = None and t = 10 and error = e503,
        THEN conjunct2, THEN conjunct1] p2 c5 r2
    by simp
  have p3: "post_attempt U5 0 3 None = (10, Rejected e503)"
    by (simp add: post_attempt_def U5_def AI_ENGINE_TIMEOUT_def)
  have w3: "callAIEngineWithRetry U5 0 3 None
      = \<lparr>result = Inl e503, events = [Attempt 3 0], finished = 10\<rparr>"
    using callAIEngineWithRetry_policy[where upstream = U5 and now = 0 and attempt = 3
        and externalSignal = None and t = 10 and error = e503,
        THEN conjunct2, THEN conjunct2, THEN conjunct1] p3 c5
    by simp
  have w5: "callAIEngineWithRetry U5 0 1 None
      = \<lparr>result = Inl e503,
         events = [Attempt 1 0, Delay 1000, Attempt 2 1010, Delay 2000, Attempt 3 3020],
         finished = 3030\<rparr>"
    using callAIEngineWithRetry_policy[where upstream = U5 and now = 0
        and ?d1.0 = 10 and ?d2.0 = 10 and ?d3.0 = 10 and ?e1.0 = e503 and ?e2.0 = e503 and ?e3.0 = e503,
        THEN conjunct2, THEN conjunct2, THEN conjunct2, THEN conjunct2] c5
    by (simp add: U5_def AI_ENGINE_TIMEOUT_def)
  show ?thesis
    using w1 w2 w3 w5 unfolding U4_def U5_def U2_def e404_def e503_def by blast
qed

text \<open>
  Claim C1 at a failing scenario.  The first attempt fails with a 503 after 10 ms; the
  caller's signal fires at 500 ms, while the retry delay of 1000 ms is running.  The wrapper
  does not look at the signal again: at 1010 ms it starts the second attempt, to which it
  does not even pass the signal, and returns its response.
\<close>

theorem retry_after_cancellation:
  "callAIEngineWithRetry
     (\<lambda>n. if n = 1
          then (10, Rejected \<lparr>err_name = ''AxiosError'', err_code = ''ERR_BAD_RESPONSE'',
                               err_status = Some 503, err_message = ''Service Unavailable''\<rparr>)
          else (10, Resolved ''stream''))
     0 1 (Some (Some 500))
   = \<lparr>result = Inr ''stream'', events = [Attempt 1 0, Delay 1000, Attempt 2 1010], finished = 1020\<rparr>"
  by (simp add: callAIEngineWithRetry.simps post_attempt_def Let_def AI_ENGINE_TIMEOUT_def
      MAX_RETRIES_def is_canceled_def is_client_error_def retry_delay_def)

text \<open>
  Claim C2 at a failing scenario.  The engine would answer after 130 s.  At 120 s the timer
  aborts the controller, axios rejects with \<open>CanceledError\<close>, and the \<open>catch\<close> block
  takes this for a client disconnect: the first attempt is the only one.
\<close>

theorem hard_timeout_not_retried:
  "callAIEngineWithRetry (\<lambda>n. (130000, Resolved ''stream'')) 0 1 None
   = \<lparr>result = Inl canceledError, events = [Attempt 1 0], finished = 120000\<rparr>"
  by (simp add: callAIEngineWithRetry.simps post_attempt_def Let_def AI_ENGINE_TIMEOUT_def
      MAX_RETRIES_def is_canceled_def canceledError_def)


lemma axios_timeout_retried:
  "callAIEngineWithRetry
     (\<lambda>n. (120000, Rejected \<lparr>err_name = ''AxiosError'', err_code = ''ECONNABORTED'',
                               err_status = None, err_message = ''timeout of 120000ms exceeded''\<rparr>
                :: string settled)) 0 1 None
   = \<lparr>result = Inl \<lparr>err_name = ''AxiosError'', err_code = ''ECONNABORTED'',
                       err_status = None, err_message = ''timeout of 120000ms exceeded''\<rparr>,
      events = [Attempt 1 0, Delay 1000, Attempt 2 121000, Delay 2000, Attempt 3 243000],
      finished = 363000\<rparr>"
  by (simp add: callAIEngineWithRetry.simps post_attempt_def Let_def AI_ENGINE_TIMEOUT_def
      MAX_RETRIES_def is_canceled_def is_client_error_def retry_delay_def)

section \<open>Properties of the title heuristic\<close>

lemma trim_head: "trim s = [] \<or> \<not> isSpace (hd (trim s))"
proof (cases "dropWhile isSpace s")
  case Nil
  show ?thesis unfolding trim_def Nil by simp
next
  case (Cons x xs)
  have nx: "\<not> isSpace x" using hd_dropWhile[of isSpace s] Cons by simp
  have "\<exists>zs. dropWhile isSpace (rev xs @ [x]) = zs @ [x]"
    using nx by (simp add: dropWhile_append)
  then obtain zs where "dropWhile isSpace (rev xs @ [x]) = zs @ [x]" by blast
  then have "trim s = x # rev zs" using Cons by (simp add: trim_def)
  then show ?thesis using nx by simp
qed

lemma collapse_head: "s = [] \<or> \<not> isSpace (hd s) \<Longrightarrow> collapse s = [] \<or> \<not> isSpace (hd (collapse s))"
  by (cases s) auto

lemma cleanMessage_head: "cleanMessage m = [] \<or> \<not> isSpace (hd (cleanMessage m))"
  unfolding cleanMessage_def using trim_head[of m] by (rule collapse_head)

lemma collapse_spaces: "c \<in> set (collapse s) \<Longrightarrow> isSpace c \<Longrightarrow> c = 32"
  by (induction s rule: collapse.induct) (auto split: if_splits)

lemma terminal_not_space: "isTerminal c \<Longrightarrow> \<not> isSpace c"
  by (auto simp add: isTerminal_def isSpace_def)

lemma dropWhile_head: "xs \<noteq> [] \<Longrightarrow> \<not> P (hd xs) \<Longrightarrow> dropWhile P xs = xs"
  by (cases xs) auto

lemma trim_id:
  assumes "s \<noteq> []" "\<not> isSpace (hd s)" "\<not> isSpace (last s)"
  shows "trim s = s"
proof -
  have a: "dropWhile isSpace s = s" using assms(1,2) by (rule dropWhile_head)
  have "rev s \<noteq> []" "\<not> isSpace (hd (rev s))" using assms(1,3) by (simp_all add: hd_rev)
  then have b: "dropWhile isSpace (rev s) = rev s" by (rule dropWhile_head)
  show ?thesis by (simp add: trim_def a b)
qed

lemma sentenceEndMatch_eq:
  "sentenceEndMatch s =
     (let k = length (takeWhile (\<lambda>c. \<not> isTerminal c) s)
      in if 0 < k \<and> k < length s then Some (take (Suc k) s) else None)"
proof -
  define k where "k = length (takeWhile (\<lambda>c. \<not> isTerminal c) s)"
  have tk: "takeWhile (\<lambda>c. \<not> isTerminal c) s = take k s"
    unfolding k_def by (rule takeWhile_eq_take)
  have dk: "dropWhile (\<lambda>c. \<not> isTerminal c) s = drop k s"
    unfolding k_def by (rule dropWhile_eq_drop)
  have m: "sentenceEndMatch s =
      (case drop k s of [] \<Rightarrow> None
       | mark # _ \<Rightarrow> if take k s = [] then None else Some (take k s @ [mark]))"
    by (simp only: sentenceEndMatch_def Let_def tk dk)
  have "sentenceEndMatch s = (if 0 < k \<and> k < length s then Some (take (Suc k) s) else None)"
  proof (cases "k < length s")
    case True
    have d: "drop k s = s ! k # drop (Suc k) s" using True by (rule Cons_nth_drop_Suc[symmetric])
    have e: "take k s = [] \<longleftrightarrow> k = 0" using True by auto
    have t: "take (Suc k) s = take k s @ [s ! k]" using True by (rule take_Suc_conv_app_nth)
    have "sentenceEndMatch s = (if take k s = [] then None else Some (take k s @ [s ! k]))"
      by (simp only: m d list.case)
    then show ?thesis using True e t by simp
  next
    case False
    then have "drop k s = []" by simp
    then show ?thesis using False m by simp
  qed
  then show ?thesis by (simp only: Let_def k_def)
qed

lemma first_terminal:
  assumes "k = length (takeWhile (\<lambda>c. \<not> isTerminal c) s)" "k < length s"
  shows "isTerminal (s ! k)"
  using assms nth_length_takeWhile[of "\<lambda>c. \<not> isTerminal c" s] by simp

lemma lastIndexOf_bound: "lastIndexOf s c < int (length s)"
  by (simp add: lastIndexOf_def)

lemma lastIndexOf_take: "nat (lastIndexOf (take n s) c) \<le> n"
proof -
  have "int (length (take n s)) \<le> int n" by simp
  then have "lastIndexOf (take n s) c < int n"
    using lastIndexOf_bound[of "take n s" c] by linarith
  then show ?thesis by linarith
qed


lemma generateTitleFromMessage_unfold:
  fixes message
  defines "clean \<equiv> cleanMessage message"
  defines "k \<equiv> length (takeWhile (\<lambda>c. \<not> isTerminal c) clean)"
  defines "idx \<equiv> lastIndexOf (take 50 clean) 32"
  shows "generateTitleFromMessage message =
    (if 0 < k \<and> k < length clean \<and> k < 60 then take (Suc k) clean
     else if length clean \<le> 50 then clean
     else take (if 30 < idx then nat idx else 50) clean @ js ''...'')"
proof -
  define shortened where "shortened =
     (if length clean \<le> 50 then clean
      else if idx > 30 then take (nat idx) (take 50 clean) @ js ''...''
      else take 50 clean @ js ''...'')"
  have g: "generateTitleFromMessage message =
      (case sentenceEndMatch clean of None \<Rightarrow> shortened
       | Some matched \<Rightarrow> if length (trim matched) \<le> 60 then trim matched else shortened)"
    by (simp only: generateTitleFromMessage_def Let_def clean_def idx_def shortened_def)
  have m: "sentenceEndMatch clean = (if 0 < k \<and> k < length clean then Some (take (Suc k) clean) else None)"
    by (simp only: sentenceEndMatch_eq Let_def k_def)
  have "nat idx \<le> 50" unfolding idx_def by (rule lastIndexOf_take)
  then have tt: "min (nat idx) 50 = nat idx" by simp
  have sh: "shortened =
     (if length clean \<le> 50 then clean
      else take (if 30 < idx then nat idx else 50) clean @ js ''...'')"
    by (simp add: shortened_def tt)
  show ?thesis
  proof (cases "0 < k \<and> k < length clean")
    case True
    then have ne: "clean \<noteq> []" by auto
    have hs: "\<not> isSpace (hd clean)"
      using cleanMessage_head[of message] ne by (simp add: clean_def)
    have tne: "take (Suc k) clean \<noteq> []" using ne by simp
    have h: "\<not> isSpace (hd (take (Suc k) clean))" using hs ne by (cases clean) auto
    have "last (take (Suc k) clean) = clean ! k"
      using True by (simp add: take_Suc_conv_app_nth)
    moreover have "isTerminal (clean ! k)" using first_terminal[OF k_def[THEN meta_eq_to_obj_eq]] True by simp
    ultimately have l: "\<not> isSpace (last (take (Suc k) clean))" by (simp add: terminal_not_space)
    have t: "trim (take (Suc k) clean) = take (Suc k) clean" using tne h l by (rule trim_id)
    have len: "length (take (Suc k) clean) = Suc k" using True by simp
    show ?thesis using True by (simp add: g m t len sh)
  next
    case False
    then show ?thesis by (auto simp add: g m sh)
  qed
qed

text \<open>
  Claim C9, as amended.  Let \<open>clean\<close> be the message with white space normalized
  (trimmed, every run of white space a single space) and \<open>k\<close> the position of its first
  terminal mark.  If the mark exists, is not the first character and lies within the first
  60 characters, the title is \<open>clean\<close> up to and including it.  Otherwise a \<open>clean\<close>
  of at most 50 characters is the title; and a longer one is cut at the last space of its
  first 50 characters if that space lies beyond position 30, at 50 characters if not, and
  \<open>...\<close> is appended, which gives at most 53 characters.
\<close>

theorem generateTitleFromMessage_cases:
  "(let clean = cleanMessage message; k = length (takeWhile (\<lambda>c. \<not> isTerminal c) clean) in
      (0 < k \<and> k < length clean \<and> k < 60 \<longrightarrow>
         generateTitleFromMessage message = take (Suc k) clean)
    \<and> (\<not> (0 < k \<and> k < length clean \<and> k < 60) \<and> length clean \<le> 50 \<longrightarrow>
         generateTitleFromMessage message = clean)
    \<and> (\<not> (0 < k \<and> k < length clean \<and> k < 60) \<and> 50 < length clean \<longrightarrow>
         generateTitleFromMessage message =
           take (if 30 < lastIndexOf (take 50 clean) 32
                 then nat (lastIndexOf (take 50 clean) 32) else 50) clean @ js ''...''
         \<and> length (generateTitleFromMessage message) \<le> 53)
    \<and> (\<forall>c\<in>set clean. isSpace c \<longrightarrow> c = 32)
    \<and> (clean \<noteq> [] \<longrightarrow> \<not> isSpace (hd clean)))"
proof -
  have n1: "\<forall>c\<in>set (cleanMessage message). isSpace c \<longrightarrow> c = 32"
    using collapse_spaces by (auto simp add: cleanMessage_def)
  have n2: "cleanMessage message \<noteq> [] \<longrightarrow> \<not> isSpace (hd (cleanMessage message))"
    using cleanMessage_head[of message] by blast
  have l: "length (take n (cleanMessage message) @ js ''...'') \<le> 53" if "n \<le> 50" for n
    using that by (simp add: js_def)
  have n50: "(if 30 < lastIndexOf (take 50 (cleanMessage message)) 32
                 then nat (lastIndexOf (take 50 (cleanMessage message)) 32) else 50) \<le> 50"
    using lastIndexOf_take[of 50 "cleanMessage message" 32] by simp
  show ?thesis
    unfolding Let_def
    using n1 n2 l[OF n50] by (simp add: generateTitleFromMessage_unfold)
qed


theorem generateTitleFromMessage_cases_witness:
  "generateTitleFromMessage (js ''Hi there! How are you?'') = js ''Hi there!''
   \<and> generateTitleFromMessage (js ''  hello   world '') = js ''hello world''
   \<and> generateTitleFromMessage
        (js ''tell me about the history of the roman empire and how it came to fall in the end'')
       = js ''tell me about the history of the roman empire and...''"
proof -
  define m1 where "m1 = js ''Hi there! How are you?''"
  define m2 where "m2 = js ''  hello   world ''"
  define m3 where
    "m3 = js ''tell me about the history of the roman empire and how it came to fall in the end''"
  have c1: "cleanMessage m1 = m1"
    by (simp add: m1_def cleanMessage_def trim_def js_def isSpace_def)
  have k1: "length (takeWhile (\<lambda>c. \<not> isTerminal c) m1) = 8"
    by (simp add: m1_def js_def isTerminal_def)
  have "generateTitleFromMessage m1 = take (Suc 8) m1"
    using generateTitleFromMessage_cases[of m1, unfolded Let_def c1 k1, THEN conjunct1]
    by (simp add: m1_def js_def)
  then have w1: "generateTitleFromMessage m1 = js ''Hi there!''"
    by (simp add: m1_def js_def)
  have c2: "cleanMessage m2 = js ''hello world''"
    by (simp add: m2_def cleanMessage_def trim_def js_def isSpace_def)
  have k2: "length (takeWhile (\<lambda>c. \<not> isTerminal c) (js ''hello world'')) = 11"
    by (simp add: js_def isTerminal_def)
  have w2: "generateTitleFromMessage m2 = js ''hello world''"
    using generateTitleFromMessage_cases[of m2, unfolded Let_def c2 k2, THEN conjunct2, THEN conjunct1]
    by (simp add: js_def)
  have c3: "cleanMessage m3 =
      js ''tell me about the history of the roman empire and how it came to fall in the end''"
    by (simp add: m3_def cleanMessage_def trim_def js_def isSpace_def)
  have k3: "length (takeWhile (\<lambda>c. \<not> isTerminal c)
      (js ''tell me about the history of the roman empire and how it came to fall in the end'')) = 80"
    by (simp add: js_def isTerminal_def)
  have i3: "lastIndexOf (take 50
      (js ''tell me about the history of the roman empire and how it came to fall in the end'')) 32 = 49"
    by (simp add: js_def lastIndexOf_def)
  have "generateTitleFromMessage m3 =
      take 49 (js ''tell me about the history of the roman empire and how it came to fall in the end'')
        @ js ''...''"
    using generateTitleFromMessage_cases[of m3, unfolded Let_def c3 k3 i3,
        THEN conjunct2, THEN conjunct2, THEN conjunct1]
    by (simp add: js_def)
  then have w3: "generateTitleFromMessage m3
      = js ''tell me about the history of the roman empire and...''"
    by (simp add: js_def)
  show ?thesis using w1 w2 w3 unfolding m1_def m2_def m3_def by blast
qed

text \<open>
  Claim C9 as stated fails when the message begins with a terminal mark: the mark of
  \<open>?what\<close> occurs within the first 60 characters, but the pattern asks for at least one
  other character before it, so the title is the whole message and not \<open>?\<close>.
\<close>

theorem generateTitleFromMessage_leading_mark_counterexample:
  "generateTitleFromMessage (js ''?what'') = js ''?what''
   \<and> generateTitleFromMessage (js ''?what'') \<noteq> js ''?''"
  by (simp add: generateTitleFromMessage_def cleanMessage_def Let_def js_def trim_def isSpace_def
      isTerminal_def sentenceEndMatch_def lastIndexOf_def)

section \<open>Properties of the end of a stream\<close>

lemma on_end_save_rejects:
  "saveMessage conversation_id ASSISTANT fullResponse = Inl error \<Longrightarrow>
   on_end saveMessage conversation_id uid stream_id fullResponse r
     = r\<lparr>unhandled := unhandled r @ [error]\<rparr>"
  by (simp add: on_end_def)

lemma on_catch_reports:
  assumes "healthy (tracking r)" "subscriber r = Active" "\<not> is_canceled error"
  shows "emitted (on_catch error stream_id r) = emitted r @ [ErrorEvent (errorMessage error)]"
    and "subscriber (on_catch error stream_id r) = Failed error"
    and "unhandled (on_catch error stream_id r) = unhandled r"
  using assms
  by (simp_all add: on_catch_def cache_del_def tick_healthy observer_next_def observer_error_def)

text \<open>
  Claim C7 at a failing scenario.  The engine's stream ends after one chunk was passed on,
  and saving the assistant message rejects.  The handler of \<open>'end'\<close> stops there: no
  \<open>error\<close> event and no \<open>done\<close> event is sent, the observer is neither completed nor
  failed, the tracking key stays, and the rejection is left unhandled.
\<close>

theorem save_failure_at_end_is_dropped:
  "on_end
     (\<lambda>conversation_id role content.
        if role = ASSISTANT
        then Inl \<lparr>err_name = ''QueryFailedError'', err_code = [], err_status = None,
                  err_message = ''connection terminated''\<rparr>
        else Inr ())
     ''c1'' ''u1'' ''u1-0'' ''Hello''
     \<lparr>emitted = [Forwarded ''Hello''], subscriber = Active, unhandled = [],
      tracking = \<lparr>entries = [(''stream:u1-0'', ''u1'', 300000)], faults = []\<rparr>\<rparr>
   = \<lparr>emitted = [Forwarded ''Hello''], subscriber = Active,
      unhandled = [\<lparr>err_name = ''QueryFailedError'', err_code = [], err_status = None,
                    err_message = ''connection terminated''\<rparr>],
      tracking = \<lparr>entries = [(''stream:u1-0'', ''u1'', 300000)], faults = []\<rparr>\<rparr>"
  by (simp add: on_end_def)

lemma save_success_at_end:
  "on_end (\<lambda>conversation_id role content. Inr ())
     ''c1'' ''u1'' ''u1-0'' ''Hello''
     \<lparr>emitted = [Forwarded ''Hello''], subscriber = Active, unhandled = [],
      tracking = \<lparr>entries = [(''stream:u1-0'', ''u1'', 300000)], faults = []\<rparr>\<rparr>
   = \<lparr>emitted = [Forwarded ''Hello'', DoneEvent ''c1''], subscriber = Completed,
      unhandled = [], tracking = \<lparr>entries = [], faults = []\<rparr>\<rparr>"
  by (simp add: on_end_def cache_del_def tick_def remove_def observer_next_def
      observer_complete_def)

end
